theory Spec2Isabelle
  imports Main "HOL-Library.Sublist"
begin

section \<open>Python values\<close>

text \<open>
  A Python \<open>str\<close> is a sequence of Unicode code points, so it is modelled as a list of
  natural numbers (\<open>len\<close> and slicing count code points, and the text template of
  \<open>save_as_txt\<close> holds characters outside the 8-bit range of \<^typ>\<open>char\<close>).
  ASCII literals are written with \<open>pystr_of\<close>.
\<close>

type_synonym pystr = "nat list"

definition pystr_of :: "string \<Rightarrow> pystr" where
  "pystr_of cs = map of_char cs"

text \<open>
  Values obtained from \<open>response.json()\<close>. JSON numbers are integers here; floating
  point values are left out of the model.
\<close>

datatype json =
    JNull
  | JBool bool
  | JInt int
  | JStr pystr
  | JList "json list"
  | JObj "(pystr \<times> json) list"

text \<open>A post record is a Python \<open>dict\<close> with string keys; \<open>post.get(k, d)\<close> is \<open>dict_get\<close>.\<close>

type_synonym post = "(pystr \<times> json) list"

definition dict_get :: "post \<Rightarrow> pystr \<Rightarrow> json \<Rightarrow> json" where
  "dict_get d k dflt = (case map_of d k of None \<Rightarrow> dflt | Some v \<Rightarrow> v)"

text \<open>Python truthiness of a value (\<open>if not x\<close>).\<close>

fun truthy :: "json \<Rightarrow> bool" where
  "truthy JNull = False"
| "truthy (JBool b) = b"
| "truthy (JInt n) = (n \<noteq> 0)"
| "truthy (JStr s) = (s \<noteq> [])"
| "truthy (JList xs) = (xs \<noteq> [])"
| "truthy (JObj kvs) = (kvs \<noteq> [])"

text \<open>
  The exceptions of the flow. \<open>RequestException\<close> carries the failure reported by the
  HTTP library (\<open>requests\<close>): a timeout, a connection failure, the \<open>HTTPError\<close> that
  \<open>raise_for_status\<close> raises for a failing status code, or a body that is not JSON.
\<close>

datatype failure = Timeout | ConnectionError | HTTPError nat | JSONDecodeError

datatype error = RequestException failure | KeyError pystr | TypeError

section \<open>Text helpers\<close>

fun digits :: "nat \<Rightarrow> nat list" where
  "digits n = (if n < 10 then [n] else digits (n div 10) @ [n mod 10])"

declare digits.simps [simp del]

text \<open>\<open>str(n)\<close> for a non-negative and for an arbitrary integer.\<close>

definition dec :: "nat \<Rightarrow> pystr" where
  "dec n = map (\<lambda>d. 48 + d) (digits n)"

definition str_int :: "int \<Rightarrow> pystr" where
  "str_int i = (if i < 0 then 45 # dec (nat (- i)) else dec (nat i))"

text \<open>
  Zero-padded decimal fields: \<open>pad2\<close> is a two-digit field of \<open>strftime\<close> (\<open>%m\<close>, \<open>%d\<close>,
  \<open>%H\<close>, \<open>%M\<close>, \<open>%S\<close>).
\<close>

definition zfill :: "nat \<Rightarrow> pystr \<Rightarrow> pystr" where
  "zfill w s = replicate (w - length s) 48 @ s"

definition pad2 :: "nat \<Rightarrow> pystr" where
  "pad2 n = zfill 2 (dec n)"

text \<open>\<open>sep.join(xs)\<close> on strings.\<close>

fun join :: "pystr \<Rightarrow> pystr list \<Rightarrow> pystr" where
  "join sep [] = []"
| "join sep [x] = x"
| "join sep (x # y # ys) = x @ sep @ join sep (y # ys)"

text \<open>\<open>needle in s\<close> for strings.\<close>

fun contains :: "pystr \<Rightarrow> pystr \<Rightarrow> bool" where
  "contains needle [] = (needle = [])"
| "contains needle (c # cs) = (prefix needle (c # cs) \<or> contains needle cs)"

text \<open>The code points Python's \<open>str.strip()\<close> removes (\<open>str.isspace\<close>).\<close>

definition is_space :: "nat \<Rightarrow> bool" where
  "is_space c \<longleftrightarrow>
     (9 \<le> c \<and> c \<le> 13) \<or> (28 \<le> c \<and> c \<le> 32) \<or> c = 133 \<or> c = 160 \<or> c = 5760 \<or>
     (8192 \<le> c \<and> c \<le> 8202) \<or> c = 8232 \<or> c = 8233 \<or> c = 8239 \<or> c = 8287 \<or> c = 12288"

definition py_strip :: "pystr \<Rightarrow> pystr" where
  "py_strip s = rev (dropWhile is_space (rev (dropWhile is_space s)))"

section \<open>\<open>strip_html_tags\<close>\<close>

text \<open>
  The three \<open>re.sub\<close> calls. \<open>re.sub\<close> scans from the left; at each position it tries
  the pattern, replaces a match and continues behind it, and otherwise copies one
  character.

  First pattern (an opening \<open>script\<close> or \<open>style\<close> tag, anything, the closing tag of the
  same name, with \<open>DOTALL\<close>): after the tag name, the greedy class of characters other
  than \<open>>\<close> can only end at the first \<open>>\<close> that follows, and the lazy \<open>.*?\<close> stops at the
  first closing tag of the same name behind it.
\<close>

fun strip_prefix :: "pystr \<Rightarrow> pystr \<Rightarrow> pystr option" where
  "strip_prefix [] s = Some s"
| "strip_prefix (p # ps) [] = None"
| "strip_prefix (p # ps) (c # cs) = (if p = c then strip_prefix ps cs else None)"

text \<open>The text behind the first occurrence of \<open>needle\<close> in \<open>s\<close>.\<close>

fun after_first :: "pystr \<Rightarrow> pystr \<Rightarrow> pystr option" where
  "after_first needle [] = strip_prefix needle []"
| "after_first needle (c # cs) =
     (case strip_prefix needle (c # cs) of
        Some r \<Rightarrow> Some r
      | None \<Rightarrow> after_first needle cs)"

definition match_block :: "pystr \<Rightarrow> pystr \<Rightarrow> pystr option" where
  "match_block name s =
     (case strip_prefix (60 # name) s of
        None \<Rightarrow> None
      | Some r \<Rightarrow>
          (case dropWhile (\<lambda>c. c \<noteq> 62) r of
             [] \<Rightarrow> None
           | _ # body \<Rightarrow> after_first (pystr_of ''</'' @ name @ [62]) body))"

definition match_script_style :: "pystr \<Rightarrow> pystr option" where
  "match_script_style s =
     (case match_block (pystr_of ''script'') s of
        Some r \<Rightarrow> Some r
      | None \<Rightarrow> match_block (pystr_of ''style'') s)"

lemma strip_prefix_length:
  "strip_prefix p s = Some r \<Longrightarrow> length r + length p = length s"
  by (induction p s rule: strip_prefix.induct) (auto split: if_splits)

lemma after_first_length:
  "after_first n s = Some r \<Longrightarrow> length r \<le> length s"
proof (induction s)
  case Nil
  then show ?case by (cases n) auto
next
  case (Cons c cs)
  then show ?case
    by (auto split: option.splits dest: strip_prefix_length)
qed

lemma match_block_length:
  assumes "match_block name s = Some r"
  shows "length r < length s"
proof -
  from assms obtain r1 x body where
    r1: "strip_prefix (60 # name) s = Some r1" and
    dw: "dropWhile (\<lambda>c. c \<noteq> 62) r1 = x # body" and
    af: "after_first (pystr_of ''</'' @ name @ [62]) body = Some r"
    by (auto simp: match_block_def split: option.splits list.splits)
  from dw have "length body < length r1"
    using length_dropWhile_le [of "\<lambda>c. c \<noteq> 62" r1] by simp
  moreover have "length r1 < length s"
    using strip_prefix_length [OF r1] by simp
  moreover have "length r \<le> length body"
    using after_first_length [OF af] .
  ultimately show ?thesis by simp
qed

lemma match_script_style_length:
  "match_script_style s = Some r \<Longrightarrow> length r < length s"
  by (auto simp: match_script_style_def split: option.splits dest: match_block_length)

function sub_script_style :: "pystr \<Rightarrow> pystr" where
  "sub_script_style [] = []"
| "sub_script_style (c # cs) =
     (case match_script_style (c # cs) of
        Some rest \<Rightarrow> sub_script_style rest
      | None \<Rightarrow> c # sub_script_style cs)"
  by pat_completeness auto
termination
  by (relation "measure length") (auto dest: match_script_style_length)

text \<open>
  Second pattern (any tag), replaced by a newline: a \<open><\<close>, at least one character
  other than \<open>>\<close>, and the first \<open>>\<close> behind them.
\<close>

definition match_tag :: "pystr \<Rightarrow> pystr option" where
  "match_tag s =
     (case s of
        [] \<Rightarrow> None
      | c # cs \<Rightarrow>
          if c = 60 \<and> takeWhile (\<lambda>x. x \<noteq> 62) cs \<noteq> []
          then (case dropWhile (\<lambda>x. x \<noteq> 62) cs of [] \<Rightarrow> None | _ # rest \<Rightarrow> Some rest)
          else None)"

lemma match_tag_length:
  "match_tag s = Some r \<Longrightarrow> length r < length s"
proof -
  assume a: "match_tag s = Some r"
  then obtain c cs x where s: "s = c # cs" and d: "dropWhile (\<lambda>x. x \<noteq> 62) cs = x # r"
    by (auto simp: match_tag_def split: list.splits if_splits)
  from d have "length r < length cs"
    using length_dropWhile_le [of "\<lambda>x. x \<noteq> 62" cs] by simp
  with s show ?thesis by simp
qed

function sub_tags :: "pystr \<Rightarrow> pystr" where
  "sub_tags [] = []"
| "sub_tags (c # cs) =
     (case match_tag (c # cs) of
        Some rest \<Rightarrow> 10 # sub_tags rest
      | None \<Rightarrow> c # sub_tags cs)"
  by pat_completeness auto
termination
  by (relation "measure length") (auto dest: match_tag_length)

text \<open>Third pattern: a run of newlines is replaced by one newline.\<close>

function sub_newlines :: "pystr \<Rightarrow> pystr" where
  "sub_newlines [] = []"
| "sub_newlines (c # cs) =
     (if c = 10 then 10 # sub_newlines (dropWhile (\<lambda>x. x = 10) cs)
      else c # sub_newlines cs)"
  by pat_completeness auto
termination
  by (relation "measure length") (auto simp: less_Suc_eq_le length_dropWhile_le)

text \<open>
  \<open>strip_html_tags\<close> receives whatever \<open>post.get('html', '')\<close> gave: a falsy value
  yields the empty string, a string is processed, and any other value makes
  \<open>re.sub\<close> raise \<open>TypeError\<close>.
\<close>

definition strip_html_tags :: "json \<Rightarrow> error + pystr" where
  "strip_html_tags html_content =
     (if \<not> truthy html_content then Inr []
      else case html_content of
        JStr s \<Rightarrow> Inr (py_strip (sub_newlines (sub_tags (sub_script_style s))))
      | _ \<Rightarrow> Inl TypeError)"

section \<open>The fetcher\<close>

text \<open>The fields \<open>__init__\<close> sets (the HTTP session is the environment \<open>get\<close> below).\<close>

record fetcher =
  api_key :: pystr
  ghost_url :: pystr
  base_url :: pystr

definition rstrip_slash :: "pystr \<Rightarrow> pystr" where
  "rstrip_slash u = rev (dropWhile (\<lambda>c. c = 47) (rev u))"

definition init :: "pystr \<Rightarrow> pystr \<Rightarrow> fetcher" where
  "init key url =
     \<lparr>api_key = key, ghost_url = rstrip_slash url,
      base_url = url @ pystr_of ''/ghost/api/content''\<rparr>"

text \<open>
  One page request: the URL, the query parameters and the timeout of \<open>session.get\<close>.
\<close>

record request =
  req_url :: pystr
  req_key :: pystr
  req_page :: nat
  req_limit :: int
  req_include :: pystr
  req_formats :: pystr
  req_timeout :: nat

text \<open>
  The environment of the fetcher: what \<open>session.get\<close>, \<open>raise_for_status\<close> and
  \<open>response.json()\<close> together make of a request. Either one of them raises (\<open>Inl\<close>),
  or the body is a JSON object whose \<open>posts\<close> member is absent (\<open>None\<close>) or an array of
  post objects. The loop asks for every page number at most once, so a function of the
  request describes every sequence of responses.
\<close>

type_synonym http = "request \<Rightarrow> failure + post list option"

text \<open>
  \<open>limit or d\<close> on the optional integer \<open>limit\<close>: \<open>None\<close> and \<open>0\<close> are both falsy, here
  and in the two \<open>if limit\<close> tests of the loop.
\<close>

definition limit_or :: "int option \<Rightarrow> int \<Rightarrow> int" where
  "limit_or limit d = (case limit of None \<Rightarrow> d | Some l \<Rightarrow> if l = 0 then d else l)"

text \<open>The value of \<open>params['limit']\<close> for the next request.\<close>

definition page_limit :: "int option \<Rightarrow> int \<Rightarrow> post list \<Rightarrow> int" where
  "page_limit limit per_page all_posts =
     (case limit of
        None \<Rightarrow> per_page
      | Some l \<Rightarrow> if l = 0 then per_page else min (l - int (length all_posts)) per_page)"

definition params :: "fetcher \<Rightarrow> nat \<Rightarrow> int \<Rightarrow> request" where
  "params self page lim =
     \<lparr>req_url = base_url self @ pystr_of ''/posts/'', req_key = api_key self,
      req_page = page, req_limit = lim, req_include = pystr_of ''tags,authors'',
      req_formats = pystr_of ''html'', req_timeout = 30\<rparr>"

text \<open>\<open>limit and len(all_posts) >= limit\<close>.\<close>

definition limit_reached :: "int option \<Rightarrow> post list \<Rightarrow> bool" where
  "limit_reached limit all_posts =
     (case limit of None \<Rightarrow> False | Some l \<Rightarrow> l \<noteq> 0 \<and> int (length all_posts) \<ge> l)"

text \<open>\<open>data.get('posts', [])\<close>.\<close>

definition posts_of :: "post list option \<Rightarrow> post list" where
  "posts_of data = (case data of None \<Rightarrow> [] | Some ps \<Rightarrow> ps)"

text \<open>
  The \<open>while True\<close> loop of \<open>fetch_all_posts\<close>. Its state is \<open>all_posts\<close> and \<open>page\<close>;
  \<open>sent\<close> records the requests issued so far. The loop need not end (a server may
  answer every page with a full page), so the result is an \<open>option\<close>: \<open>None\<close> stands for
  a run that never returns. An exception leaves the loop with \<open>Inl\<close>: the handler logs
  and re-raises.
\<close>

partial_function (option) fetch_loop ::
  "http \<Rightarrow> fetcher \<Rightarrow> int option \<Rightarrow> int \<Rightarrow> request list \<Rightarrow> post list \<Rightarrow> nat
     \<Rightarrow> (request list \<times> (error + post list)) option"
where
  "fetch_loop get self limit per_page sent all_posts page =
     (let request = params self page (page_limit limit per_page all_posts);
          sent' = sent @ [request]
      in case get request of
           Inl e \<Rightarrow> Some (sent', Inl (RequestException e))
         | Inr data \<Rightarrow>
             (let posts = posts_of data in
              if posts = [] then Some (sent', Inr all_posts)
              else
                let all_posts' = all_posts @ posts in
                if int (length posts) < per_page then Some (sent', Inr all_posts')
                else if limit_reached limit all_posts' then Some (sent', Inr all_posts')
                else fetch_loop get self limit per_page sent' all_posts' (page + 1)))"

declare fetch_loop.simps [code]

definition fetch_all_posts ::
  "http \<Rightarrow> fetcher \<Rightarrow> int option \<Rightarrow> (request list \<times> (error + post list)) option" where
  "fetch_all_posts get self limit =
     fetch_loop get self limit (min (limit_or limit 100) 100) [] [] 1"

text \<open>
  The upstream source as the Content API documents it: the source holds the posts
  \<open>src\<close>, and page \<open>p\<close> of size \<open>l\<close> is the slice of \<open>l\<close> posts behind the first
  \<open>(p - 1) * l\<close>.
\<close>

definition ghost_api :: "post list \<Rightarrow> http" where
  "ghost_api src r =
     Inr (Some (take (nat (req_limit r)) (drop ((req_page r - 1) * nat (req_limit r)) src)))"

section \<open>Persistence\<close>

text \<open>
  The file system is a log of the effects the operations have on it: directories
  created (with the \<open>parents\<close> flag; \<open>exist_ok\<close> is always set) and files opened for
  writing with their content. A path is built as \<open>pathlib\<close> builds it, from a string
  and by appending a name. Failures of the file system itself are not part of the
  model.
\<close>

datatype path = Path pystr | Join path pystr

datatype content = Text pystr | Json json

datatype effect = MkDir path bool | WriteFile path content

text \<open>A reading of \<open>datetime.now()\<close>.\<close>

record datetime =
  year :: nat
  month :: nat
  day :: nat
  hour :: nat
  minute :: nat
  second :: nat
  microsecond :: nat

text \<open>
  \<open>strftime('%Y%m%d_%H%M%S')\<close>. The year is printed in decimal, which is the four
  digits of \<open>%Y\<close> for the years from 1000 on.
\<close>

definition strftime :: "datetime \<Rightarrow> pystr" where
  "strftime t =
     dec (year t) @ pad2 (month t) @ pad2 (day t) @ [95] @
     pad2 (hour t) @ pad2 (minute t) @ pad2 (second t)"

definition isoformat :: "datetime \<Rightarrow> pystr" where
  "isoformat t =
     zfill 4 (dec (year t)) @ [45] @ pad2 (month t) @ [45] @ pad2 (day t) @ [84] @
     pad2 (hour t) @ [58] @ pad2 (minute t) @ [58] @ pad2 (second t) @
     (if microsecond t = 0 then [] else 46 # zfill 6 (dec (microsecond t)))"

text \<open>The name of the JSON artifact, and \<open>save_as_json\<close> with its two clock readings.\<close>

definition json_name :: "datetime \<Rightarrow> pystr" where
  "json_name t = pystr_of ''ghost_posts_'' @ strftime t @ pystr_of ''.json''"

definition save_as_json ::
  "fetcher \<Rightarrow> datetime \<Rightarrow> datetime \<Rightarrow> post list \<Rightarrow> pystr \<Rightarrow> effect list \<times> path" where
  "save_as_json self now1 now2 posts output_dir =
     (let output_path = Path output_dir;
          json_file = Join output_path (json_name now1);
          output_data = JObj
            [(pystr_of ''metadata'', JObj
               [(pystr_of ''fetched_at'', JStr (isoformat now2)),
                (pystr_of ''total_posts'', JInt (int (length posts))),
                (pystr_of ''source'', JStr (ghost_url self))]),
             (pystr_of ''posts'', JList (map JObj posts))]
      in ([MkDir output_path False, WriteFile json_file (Json output_data)], json_file))"

text \<open>Sequencing of computations that may raise.\<close>

definition and_then :: "error + 'a \<Rightarrow> ('a \<Rightarrow> error + 'b) \<Rightarrow> error + 'b" where
  "and_then r f = (case r of Inl e \<Rightarrow> Inl e | Inr x \<Rightarrow> f x)"

fun map_result :: "('a \<Rightarrow> error + 'b) \<Rightarrow> 'a list \<Rightarrow> error + 'b list" where
  "map_result f [] = Inr []"
| "map_result f (x # xs) =
     and_then (f x) (\<lambda>y. and_then (map_result f xs) (\<lambda>ys. Inr (y # ys)))"

text \<open>
  The comprehension \<open>[tag['name'] for tag in v]\<close>: iterating a list gives its
  elements, a string its characters, a dict its keys, anything else raises; the
  subscript needs a dict (\<open>KeyError\<close> when the key is missing) and raises \<open>TypeError\<close>
  on every other value.
\<close>

definition iter :: "json \<Rightarrow> error + json list" where
  "iter v =
     (case v of
        JList xs \<Rightarrow> Inr xs
      | JStr s \<Rightarrow> Inr (map (\<lambda>c. JStr [c]) s)
      | JObj kvs \<Rightarrow> Inr (map (\<lambda>kv. JStr (fst kv)) kvs)
      | _ \<Rightarrow> Inl TypeError)"

definition item_name :: "json \<Rightarrow> error + json" where
  "item_name tag =
     (case tag of
        JObj d \<Rightarrow>
          (case map_of d (pystr_of ''name'') of
             None \<Rightarrow> Inl (KeyError (pystr_of ''name''))
           | Some v \<Rightarrow> Inr v)
      | _ \<Rightarrow> Inl TypeError)"

definition names_of :: "json \<Rightarrow> error + json list" where
  "names_of v = and_then (iter v) (map_result item_name)"

text \<open>\<open>', '.join(names)\<close>: every item has to be a string.\<close>

definition as_str :: "json \<Rightarrow> error + pystr" where
  "as_str v = (case v of JStr s \<Rightarrow> Inr s | _ \<Rightarrow> Inl TypeError)"

definition join_names :: "json list \<Rightarrow> error + pystr" where
  "join_names names =
     and_then (map_result as_str names) (\<lambda>ss. Inr (join (pystr_of '', '') ss))"

text \<open>
  A value inside an f-string. The text of a list or a dict is Python's \<open>repr\<close>, which
  is taken as a parameter.
\<close>

definition py_format :: "(json \<Rightarrow> pystr) \<Rightarrow> json \<Rightarrow> pystr" where
  "py_format repr v =
     (case v of
        JStr s \<Rightarrow> s
      | JInt n \<Rightarrow> str_int n
      | JNull \<Rightarrow> pystr_of ''None''
      | JBool b \<Rightarrow> (if b then pystr_of ''True'' else pystr_of ''False'')
      | _ \<Rightarrow> repr v)"

text \<open>
  The substitution of the characters that are illegal in a file name: \<open><\<close>, \<open>>\<close>, the
  colon, the double quote, the slash, the backslash, the bar, \<open>?\<close> and \<open>*\<close> become an
  underscore.
\<close>

definition sanitize :: "pystr \<Rightarrow> pystr" where
  "sanitize title =
     map (\<lambda>c. if c \<in> set [60, 62, 58, 34, 47, 92, 124, 63, 42] then 95 else c) title"

text \<open>
  The text written for one post. The labels of the template are Chinese words, given
  here by their code points; \<open>banner\<close> is \<open>'=' * 80\<close>.
\<close>

definition banner :: pystr where
  "banner = replicate 80 61"

definition no_excerpt :: pystr where
  "no_excerpt = [0x65E0, 0x6458, 0x8981]"

definition txt_content ::
  "(json \<Rightarrow> pystr) \<Rightarrow> post \<Rightarrow> pystr \<Rightarrow> pystr \<Rightarrow> pystr \<Rightarrow> pystr \<Rightarrow> pystr" where
  "txt_content repr post title tag_line author_line text_content =
     banner @ [10] @
     title @ [10] @
     banner @ [10] @
     [10] @
     [0x6458, 0x8981, 58, 32] @
       py_format repr (dict_get post (pystr_of ''excerpt'') (JStr no_excerpt)) @ [10] @
     [10] @
     [0x53D1, 0x5E03, 0x65E5, 0x671F, 58, 32] @
       py_format repr (dict_get post (pystr_of ''published_at'') (JStr [])) @ [10] @
     [10] @
     [0x9605, 0x8BFB, 0x65F6, 0x95F4, 58, 32] @
       py_format repr (dict_get post (pystr_of ''reading_time'') (JInt 0)) @
       [32, 0x5206, 0x949F] @ [10] @
     [10] @
     [0x6807, 0x7B7E, 58, 32] @ tag_line @ [10] @
     [10] @
     [0x4F5C, 0x8005, 58, 32] @ author_line @ [10] @
     [10] @
     banner @ [10] @
     [0x6587, 0x7AE0, 0x5185, 0x5BB9] @ [10] @
     banner @ [10] @
     [10] @
     text_content @ [10]"

text \<open>
  The body of the loop of \<open>save_as_txt\<close> up to the write: the path and the text of the
  file of one post, or the exception raised on the way (\<open>re.sub\<close> on a title that is not
  a string, \<open>strip_html_tags\<close>, the two comprehensions and joins, in this order).
\<close>

definition txt_file :: "(json \<Rightarrow> pystr) \<Rightarrow> path \<Rightarrow> post \<Rightarrow> error + path \<times> pystr" where
  "txt_file repr output_path post =
     (let title = dict_get post (pystr_of ''title'') (JStr (pystr_of ''untitled''));
          slug = dict_get post (pystr_of ''slug'')
                   (JStr (pystr_of ''post-'' @
                      py_format repr (dict_get post (pystr_of ''id'') (JStr (pystr_of ''unknown'')))))
      in case title of
           JStr t \<Rightarrow>
             (let safe_title = sanitize t;
                  safe_filename =
                    py_format repr slug @ [95] @ take 50 safe_title @ pystr_of ''.txt'';
                  file_path = Join output_path safe_filename
              in and_then (strip_html_tags (dict_get post (pystr_of ''html'') (JStr [])))
                   (\<lambda>text_content.
                 and_then (names_of (dict_get post (pystr_of ''tags'') (JList [])))
                   (\<lambda>tags.
                 and_then (join_names tags)
                   (\<lambda>tag_line.
                 and_then (names_of (dict_get post (pystr_of ''authors'') (JList [])))
                   (\<lambda>authors.
                 and_then (join_names authors)
                   (\<lambda>author_line.
                 Inr (file_path,
                      txt_content repr post t tag_line author_line text_content)))))))
         | _ \<Rightarrow> Inl TypeError)"

text \<open>
  The loop of \<open>save_as_txt\<close>: \<open>effs\<close> are the effects so far, \<open>saved_files\<close> the list the
  function returns. An exception ends the loop and leaves the files already written.
  The directory arrives as the path whose text \<open>fetch_and_save\<close> passes
  (\<open>Path(str(p))\<close> is \<open>p\<close>).
\<close>

fun save_txt_loop ::
  "(json \<Rightarrow> pystr) \<Rightarrow> path \<Rightarrow> post list \<Rightarrow> effect list \<Rightarrow> path list
     \<Rightarrow> effect list \<times> (error + path list)" where
  "save_txt_loop repr output_path [] effs saved_files = (effs, Inr saved_files)"
| "save_txt_loop repr output_path (post # posts) effs saved_files =
     (case txt_file repr output_path post of
        Inl e \<Rightarrow> (effs, Inl e)
      | Inr (file_path, text) \<Rightarrow>
          save_txt_loop repr output_path posts
            (effs @ [WriteFile file_path (Text text)]) (saved_files @ [file_path]))"

definition save_as_txt ::
  "(json \<Rightarrow> pystr) \<Rightarrow> post list \<Rightarrow> path \<Rightarrow> effect list \<times> (error + path list)" where
  "save_as_txt repr posts output_path =
     save_txt_loop repr output_path posts [MkDir output_path True] []"

text \<open>The slim projection of one post, and \<open>save_index\<close>.\<close>

definition index_entry :: "post \<Rightarrow> error + json" where
  "index_entry post =
     and_then (names_of (dict_get post (pystr_of ''tags'') (JList [])))
       (\<lambda>tags. Inr (JObj
          [(pystr_of ''id'', dict_get post (pystr_of ''id'') JNull),
           (pystr_of ''slug'', dict_get post (pystr_of ''slug'') JNull),
           (pystr_of ''title'', dict_get post (pystr_of ''title'') JNull),
           (pystr_of ''excerpt'', dict_get post (pystr_of ''excerpt'') JNull),
           (pystr_of ''published_at'', dict_get post (pystr_of ''published_at'') JNull),
           (pystr_of ''reading_time'', dict_get post (pystr_of ''reading_time'') JNull),
           (pystr_of ''tags'', JList tags),
           (pystr_of ''url'', dict_get post (pystr_of ''url'') JNull)]))"

definition save_index :: "post list \<Rightarrow> pystr \<Rightarrow> effect list \<times> (error + path)" where
  "save_index posts output_dir =
     (let index_file = Join (Path output_dir) (pystr_of ''index.json'')
      in case map_result index_entry posts of
           Inl e \<Rightarrow> ([], Inl e)
         | Inr index \<Rightarrow> ([WriteFile index_file (Json (JList index))], Inr index_file))"

section \<open>\<open>fetch_and_save\<close>\<close>

text \<open>
  The whole flow: the requests sent, the effects on the file system and the outcome
  (\<open>Inl\<close> for the exception the handler logs and re-raises). \<open>persist\<close> is the part of
  \<open>fetch_and_save\<close> behind the early return: the two \<open>if\<close> blocks that save. The
  summary printed at the end is not modelled.
\<close>

definition persist ::
  "(json \<Rightarrow> pystr) \<Rightarrow> datetime \<Rightarrow> datetime \<Rightarrow> fetcher \<Rightarrow> pystr \<Rightarrow> bool \<Rightarrow> bool \<Rightarrow> post list
     \<Rightarrow> effect list \<times> (error + unit)" where
  "persist repr now1 now2 self output_dir save_json save_txt posts =
     (let (effs1, r1) =
            (if save_json then
               (let (effs_json, json_file) = save_as_json self now1 now2 posts output_dir;
                    (effs_index, r) = save_index posts output_dir
                in (effs_json @ effs_index, and_then r (\<lambda>_. Inr ())))
             else ([], Inr ()))
      in case r1 of
           Inl e \<Rightarrow> (effs1, Inl e)
         | Inr _ \<Rightarrow>
             (let (effs2, r2) =
                    (if save_txt
                     then save_as_txt repr posts (Join (Path output_dir) (pystr_of ''txt''))
                     else ([], Inr []))
              in (effs1 @ effs2, and_then r2 (\<lambda>_. Inr ()))))"

definition fetch_and_save ::
  "http \<Rightarrow> (json \<Rightarrow> pystr) \<Rightarrow> datetime \<Rightarrow> datetime \<Rightarrow> fetcher \<Rightarrow> pystr \<Rightarrow> bool \<Rightarrow> bool
     \<Rightarrow> int option \<Rightarrow> (request list \<times> effect list \<times> (error + unit)) option" where
  "fetch_and_save get repr now1 now2 self output_dir save_json save_txt limit =
     (case fetch_all_posts get self limit of
        None \<Rightarrow> None
      | Some (sent, r) \<Rightarrow>
          (let effs0 = [MkDir (Path output_dir) True]
           in case r of
                Inl e \<Rightarrow> Some (sent, effs0, Inl e)
              | Inr posts \<Rightarrow>
                  if posts = [] then Some (sent, effs0, Inr ())
                  else
                    (let (effs, r') =
                           persist repr now1 now2 self output_dir save_json save_txt posts
                     in Some (sent, effs0 @ effs, r'))))"

section \<open>Vocabulary of the claims\<close>

text \<open>
  The requests of a run, as a property of the trace: the pages \<open>page\<close>, \<open>page + 1\<close>, ...
  are requested once each and in order, every request but the last was answered, and
  the outcome of the run is a failure exactly when the last request failed, with that
  failure.
\<close>

definition answered :: "http \<Rightarrow> request \<Rightarrow> bool" where
  "answered get r = (case get r of Inl f \<Rightarrow> False | Inr d \<Rightarrow> True)"

definition last_agrees :: "http \<Rightarrow> request \<Rightarrow> error + post list \<Rightarrow> bool" where
  "last_agrees get r out =
     (case out of
        Inl e \<Rightarrow> (case get r of Inl f \<Rightarrow> e = RequestException f | Inr d \<Rightarrow> False)
      | Inr ps \<Rightarrow> answered get r)"

definition trace_ok :: "http \<Rightarrow> nat \<Rightarrow> request list \<Rightarrow> error + post list \<Rightarrow> bool" where
  "trace_ok get page new out \<longleftrightarrow>
     new \<noteq> [] \<and> map req_page new = [page ..< page + length new] \<and>
     list_all (answered get) (butlast new) \<and> last_agrees get (last new) out"

text \<open>The files an effect log writes.\<close>

fun written :: "effect list \<Rightarrow> path list" where
  "written [] = []"
| "written (MkDir p parents # effs) = written effs"
| "written (WriteFile p c # effs) = p # written effs"

text \<open>
  The three kinds of artifact under the output directory \<open>d\<close>, told apart by where they
  are written: the dump \<open>d/ghost_posts_*.json\<close>, the index \<open>d/index.json\<close> and the text
  files \<open>d/txt/*\<close>.
\<close>

fun is_dump :: "pystr \<Rightarrow> effect \<Rightarrow> bool" where
  "is_dump d (WriteFile (Join p n) c) = (p = Path d \<and> prefix (pystr_of ''ghost_posts_'') n)"
| "is_dump d e = False"

fun is_index :: "pystr \<Rightarrow> effect \<Rightarrow> bool" where
  "is_index d (WriteFile p c) = (p = Join (Path d) (pystr_of ''index.json''))"
| "is_index d e = False"

fun is_txt :: "pystr \<Rightarrow> effect \<Rightarrow> bool" where
  "is_txt d (WriteFile (Join p n) c) = (p = Join (Path d) (pystr_of ''txt''))"
| "is_txt d e = False"

text \<open>A write into the directory \<open>out\<close>.\<close>

definition txt_write :: "path \<Rightarrow> effect \<Rightarrow> bool" where
  "txt_write out w = (case w of WriteFile (Join p n) c \<Rightarrow> p = out | _ \<Rightarrow> False)"

text \<open>
  The values the code puts in the place of an absent field: in the text file
  (\<open>txt_defaults\<close>, the second arguments of \<open>post.get\<close> in \<open>save_as_txt\<close>) and in the
  index (\<open>index_defaults\<close>: \<open>post.get\<close> without a default gives \<open>None\<close>).
\<close>

definition txt_defaults :: "(json \<Rightarrow> pystr) \<Rightarrow> post \<Rightarrow> (pystr \<times> json) list" where
  "txt_defaults repr post =
     [(pystr_of ''title'', JStr (pystr_of ''untitled'')),
      (pystr_of ''slug'',
         JStr (pystr_of ''post-'' @
           py_format repr (dict_get post (pystr_of ''id'') (JStr (pystr_of ''unknown''))))),
      (pystr_of ''html'', JStr []),
      (pystr_of ''excerpt'', JStr no_excerpt),
      (pystr_of ''published_at'', JStr []),
      (pystr_of ''reading_time'', JInt 0),
      (pystr_of ''tags'', JList []),
      (pystr_of ''authors'', JList [])]"

definition index_defaults :: "(pystr \<times> json) list" where
  "index_defaults =
     [(pystr_of ''slug'', JNull),
      (pystr_of ''title'', JNull),
      (pystr_of ''excerpt'', JNull),
      (pystr_of ''published_at'', JNull),
      (pystr_of ''reading_time'', JNull),
      (pystr_of ''tags'', JList []),
      (pystr_of ''url'', JNull)]"

text \<open>
  Posts whose fields have the types of the data model: the title a string, the body
  a string (or falsy), \<open>tags\<close> and \<open>authors\<close> lists of mappings whose \<open>name\<close>, when
  there is one, is a string. \<open>names_complete\<close> says that every tag and author has a
  \<open>name\<close>, \<open>tags_complete\<close> that every tag has.
\<close>

definition mapping_ok :: "json \<Rightarrow> bool" where
  "mapping_ok v =
     (case v of
        JObj d \<Rightarrow>
          (case map_of d (pystr_of ''name'') of
             None \<Rightarrow> True
           | Some (JStr n) \<Rightarrow> True
           | Some _ \<Rightarrow> False)
      | _ \<Rightarrow> False)"

definition has_name :: "json \<Rightarrow> bool" where
  "has_name v = (case v of JObj d \<Rightarrow> map_of d (pystr_of ''name'') \<noteq> None | _ \<Rightarrow> False)"

definition mappings_ok :: "json \<Rightarrow> bool" where
  "mappings_ok v = (case v of JList xs \<Rightarrow> list_all mapping_ok xs | _ \<Rightarrow> False)"

definition all_named :: "json \<Rightarrow> bool" where
  "all_named v = (case v of JList xs \<Rightarrow> list_all has_name xs | _ \<Rightarrow> False)"

definition is_str :: "json \<Rightarrow> bool" where
  "is_str v = (case v of JStr s \<Rightarrow> True | _ \<Rightarrow> False)"

definition well_typed :: "post \<Rightarrow> bool" where
  "well_typed post \<longleftrightarrow>
     is_str (dict_get post (pystr_of ''title'') (JStr (pystr_of ''untitled''))) \<and>
     (is_str (dict_get post (pystr_of ''html'') (JStr [])) \<or>
      \<not> truthy (dict_get post (pystr_of ''html'') (JStr []))) \<and>
     mappings_ok (dict_get post (pystr_of ''tags'') (JList [])) \<and>
     mappings_ok (dict_get post (pystr_of ''authors'') (JList []))"

definition tags_complete :: "post \<Rightarrow> bool" where
  "tags_complete post = all_named (dict_get post (pystr_of ''tags'') (JList []))"

definition names_complete :: "post \<Rightarrow> bool" where
  "names_complete post \<longleftrightarrow>
     tags_complete post \<and> all_named (dict_get post (pystr_of ''authors'') (JList []))"

text \<open>
  The readings a clock can give (the years for which \<open>%Y\<close> has four digits), and two
  readings that agree up to the second.
\<close>

definition valid_datetime :: "datetime \<Rightarrow> bool" where
  "valid_datetime t \<longleftrightarrow>
     1000 \<le> year t \<and> year t \<le> 9999 \<and> 1 \<le> month t \<and> month t \<le> 12 \<and>
     1 \<le> day t \<and> day t \<le> 31 \<and> hour t < 24 \<and> minute t < 60 \<and> second t < 60 \<and>
     microsecond t < 1000000"

definition same_second :: "datetime \<Rightarrow> datetime \<Rightarrow> bool" where
  "same_second a b \<longleftrightarrow>
     year a = year b \<and> month a = month b \<and> day a = day b \<and>
     hour a = hour b \<and> minute a = minute b \<and> second a = second b"

section \<open>Sample data\<close>

text \<open>Concrete inputs on which the theorems are instantiated.\<close>

definition sample_self :: fetcher where
  "sample_self = init (pystr_of ''key'') (pystr_of ''https://blog.example'')"

definition sample_post :: post where
  "sample_post =
     [(pystr_of ''id'', JStr (pystr_of ''a1'')),
      (pystr_of ''slug'', JStr (pystr_of ''hello'')),
      (pystr_of ''title'', JStr (pystr_of ''Hi?'')),
      (pystr_of ''html'', JStr (pystr_of ''<p>Hello</p>'')),
      (pystr_of ''tags'', JList [JObj [(pystr_of ''name'', JStr (pystr_of ''news''))]]),
      (pystr_of ''authors'', JList [JObj [(pystr_of ''name'', JStr (pystr_of ''Ann''))]])]"

definition bare_post :: post where
  "bare_post = [(pystr_of ''id'', JStr (pystr_of ''b2''))]"



definition sample_time :: datetime where
  "sample_time =
     \<lparr>year = 2026, month = 11, day = 4, hour = 9, minute = 57, second = 30,
      microsecond = 0\<rparr>"

definition sample_repr :: "json \<Rightarrow> pystr" where
  "sample_repr v = []"

section \<open>The pagination loop\<close>

text \<open>One iteration of the loop, by the branch it takes.\<close>

lemma page_limit_le: "page_limit limit per_page all_posts \<le> per_page"
  by (simp add: page_limit_def split: option.splits)

lemma fetch_loop_fail:
  assumes "get (params self page (page_limit limit per_page all_posts)) = Inl f"
  shows "fetch_loop get self limit per_page sent all_posts page =
     Some (sent @ [params self page (page_limit limit per_page all_posts)],
           Inl (RequestException f))"
  using assms by (subst fetch_loop.simps) (simp add: Let_def)

lemma fetch_loop_empty:
  assumes "get (params self page (page_limit limit per_page all_posts)) = Inr data"
    and "posts_of data = []"
  shows "fetch_loop get self limit per_page sent all_posts page =
     Some (sent @ [params self page (page_limit limit per_page all_posts)], Inr all_posts)"
  using assms by (subst fetch_loop.simps) (simp add: Let_def)

lemma fetch_loop_short:
  assumes "get (params self page (page_limit limit per_page all_posts)) = Inr data"
    and "posts_of data \<noteq> []"
    and "int (length (posts_of data)) < per_page"
  shows "fetch_loop get self limit per_page sent all_posts page =
     Some (sent @ [params self page (page_limit limit per_page all_posts)],
           Inr (all_posts @ posts_of data))"
  using assms by (subst fetch_loop.simps) (simp add: Let_def)

lemma fetch_loop_reached:
  assumes "get (params self page (page_limit limit per_page all_posts)) = Inr data"
    and "posts_of data \<noteq> []"
    and "\<not> int (length (posts_of data)) < per_page"
    and "limit_reached limit (all_posts @ posts_of data)"
  shows "fetch_loop get self limit per_page sent all_posts page =
     Some (sent @ [params self page (page_limit limit per_page all_posts)],
           Inr (all_posts @ posts_of data))"
  using assms by (subst fetch_loop.simps) (simp add: Let_def)

lemma fetch_loop_next:
  assumes "get (params self page (page_limit limit per_page all_posts)) = Inr data"
    and "posts_of data \<noteq> []"
    and "\<not> int (length (posts_of data)) < per_page"
    and "\<not> limit_reached limit (all_posts @ posts_of data)"
  shows "fetch_loop get self limit per_page sent all_posts page =
     fetch_loop get self limit per_page
       (sent @ [params self page (page_limit limit per_page all_posts)])
       (all_posts @ posts_of data) (page + 1)"
  using assms by (subst fetch_loop.simps) (simp add: Let_def)

lemma page_limit_falsy: "limit = None \<or> limit = Some 0 \<Longrightarrow> page_limit limit per_page all_posts = per_page"
  by (auto simp: page_limit_def)

lemma limit_reached_falsy: "limit = None \<or> limit = Some 0 \<Longrightarrow> \<not> limit_reached limit ps"
  by (auto simp: limit_reached_def)

lemma ghost_api_page:
  "ghost_api src (params self page lim) = Inr (Some (take (nat lim) (drop ((page - 1) * nat lim) src)))"
  by (simp add: ghost_api_def params_def)

lemma loop_exhausts:
  assumes "limit = None \<or> limit = Some 0"
    and "all_posts = take ((page - 1) * 100) src"
    and "1 \<le> page"
  shows "\<exists>sent'. fetch_loop (ghost_api src) self limit 100 sent all_posts page = Some (sent', Inr src)"
  using assms
proof (induction "length src - (page - 1) * 100" arbitrary: page sent all_posts rule: less_induct)
  case less
  let ?k = "(page - 1) * 100"
  let ?posts = "take 100 (drop ?k src)"
  have pl: "page_limit limit 100 all_posts = 100"
    using less.prems(1) by (rule page_limit_falsy)
  have g: "ghost_api src (params self page (page_limit limit 100 all_posts)) = Inr (Some ?posts)"
    unfolding pl ghost_api_page by simp
  have po: "posts_of (Some ?posts) = ?posts" by (simp add: posts_of_def)
  have tk: "all_posts @ ?posts = take (?k + 100) src"
    using less.prems(2) by (simp add: take_add)
  show ?case
  proof (cases "?posts = []")
    case True
    then have "length src \<le> ?k" by simp
    then have "all_posts = src" using less.prems(2) by simp
    then show ?thesis
      using fetch_loop_empty [where get = "ghost_api src" and sent = sent, OF g] True po by simp
  next
    case False
    show ?thesis
    proof (cases "length ?posts < 100")
      case True
      then have "length src < ?k + 100" by auto
      then have "all_posts @ ?posts = src" using tk by simp
      moreover have "posts_of (Some ?posts) \<noteq> []" using False po by simp
      moreover have "int (length (posts_of (Some ?posts))) < 100" using True po by simp
      ultimately show ?thesis
        using fetch_loop_short [where get = "ghost_api src" and sent = sent, OF g] po by simp
    next
      case full: False
      then have len: "?k + 100 \<le> length src" by auto
      have ih: "\<exists>sent'. fetch_loop (ghost_api src) self limit 100
                  (sent @ [params self page (page_limit limit 100 all_posts)])
                  (all_posts @ ?posts) (page + 1) = Some (sent', Inr src)"
      proof (rule less.hyps)
        show "length src - (page + 1 - 1) * 100 < length src - (page - 1) * 100"
          using len less.prems(3) by (cases page) auto
        show "1 \<le> page + 1" by simp
        show "limit = None \<or> limit = Some 0" by (rule less.prems(1))
        have "(page + 1 - 1) * 100 = ?k + 100"
          using less.prems(3) by (cases page) auto
        then show "all_posts @ ?posts = take ((page + 1 - 1) * 100) src"
          using tk by simp
      qed
      have a: "posts_of (Some ?posts) \<noteq> []" using False po by simp
      have b: "\<not> int (length (posts_of (Some ?posts))) < 100" using full po by simp
      have c: "\<not> limit_reached limit (all_posts @ posts_of (Some ?posts))"
        using less.prems(1) by (rule limit_reached_falsy)
      show ?thesis
        unfolding fetch_loop_next [where get = "ghost_api src" and sent = sent, OF g a b c] po by (rule ih)
    qed
  qed
qed







text \<open>A limit of \<open>0\<close> and no limit give the same run, whatever the server answers.\<close>

lemma fetch_loop_zero_Some:
  assumes "fetch_loop get self limit per_page sent all_posts page = Some y"
  shows "limit = Some 0 \<longrightarrow> fetch_loop get self None per_page sent all_posts page = Some y"
proof (rule fetch_loop.raw_induct
    [where P = "\<lambda>get self limit per_page sent all_posts page y.
       limit = Some 0 \<longrightarrow> fetch_loop get self None per_page sent all_posts page = Some y",
     OF _ assms])
  fix f get self limit per_page sent all_posts page y
  assume ih: "\<And>get self limit per_page sent all_posts page y.
      f get self limit per_page sent all_posts page = Some y \<Longrightarrow>
      limit = Some 0 \<longrightarrow> fetch_loop get self None per_page sent all_posts page = Some y"
  and body: "(let request = params self page (page_limit limit per_page all_posts);
          sent' = sent @ [request]
      in case get request of Inl e \<Rightarrow> Some (sent', Inl (RequestException e))
         | Inr data \<Rightarrow>
             let posts = posts_of data
             in if posts = [] then Some (sent', Inr all_posts)
                else let all_posts' = all_posts @ posts
                     in if int (length posts) < per_page
                        then Some (sent', Inr all_posts')
                        else if limit_reached limit all_posts'
                             then Some (sent', Inr all_posts')
                             else f get self limit per_page sent'
                                   all_posts' (page + 1)) = Some y"
  show "limit = Some 0 \<longrightarrow> fetch_loop get self None per_page sent all_posts page = Some y"
  proof
    assume l: "limit = Some 0"
    have h: "\<And>sent all_posts page. f get self (Some 0) per_page sent all_posts page = Some y \<Longrightarrow>
        fetch_loop get self None per_page sent all_posts page = Some y"
      using ih by blast
    show "fetch_loop get self None per_page sent all_posts page = Some y"
      using body h l
      by (subst fetch_loop.simps)
         (auto simp: Let_def page_limit_def limit_reached_def split: sum.splits if_splits)
  qed
qed

lemma fetch_loop_None_Some:
  assumes "fetch_loop get self limit per_page sent all_posts page = Some y"
  shows "limit = None \<longrightarrow> fetch_loop get self (Some 0) per_page sent all_posts page = Some y"
proof (rule fetch_loop.raw_induct
    [where P = "\<lambda>get self limit per_page sent all_posts page y.
       limit = None \<longrightarrow> fetch_loop get self (Some 0) per_page sent all_posts page = Some y",
     OF _ assms])
  fix f get self limit per_page sent all_posts page y
  assume ih: "\<And>get self limit per_page sent all_posts page y.
      f get self limit per_page sent all_posts page = Some y \<Longrightarrow>
      limit = None \<longrightarrow> fetch_loop get self (Some 0) per_page sent all_posts page = Some y"
  and body: "(let request = params self page (page_limit limit per_page all_posts);
          sent' = sent @ [request]
      in case get request of Inl e \<Rightarrow> Some (sent', Inl (RequestException e))
         | Inr data \<Rightarrow>
             let posts = posts_of data
             in if posts = [] then Some (sent', Inr all_posts)
                else let all_posts' = all_posts @ posts
                     in if int (length posts) < per_page
                        then Some (sent', Inr all_posts')
                        else if limit_reached limit all_posts'
                             then Some (sent', Inr all_posts')
                             else f get self limit per_page sent'
                                   all_posts' (page + 1)) = Some y"
  show "limit = None \<longrightarrow> fetch_loop get self (Some 0) per_page sent all_posts page = Some y"
  proof
    assume l: "limit = None"
    have h: "\<And>sent all_posts page. f get self None per_page sent all_posts page = Some y \<Longrightarrow>
        fetch_loop get self (Some 0) per_page sent all_posts page = Some y"
      using ih by blast
    show "fetch_loop get self (Some 0) per_page sent all_posts page = Some y"
      using body h l
      by (subst fetch_loop.simps)
         (auto simp: Let_def page_limit_def limit_reached_def split: sum.splits if_splits)
  qed
qed

lemma fetch_loop_zero_limit:
  "fetch_loop get self (Some 0) per_page sent all_posts page =
   fetch_loop get self None per_page sent all_posts page"
proof (cases "fetch_loop get self (Some 0) per_page sent all_posts page")
  case None
  show ?thesis
  proof (cases "fetch_loop get self None per_page sent all_posts page")
    case n: None
    with None show ?thesis by simp
  next
    case (Some y)
    from fetch_loop_None_Some [OF Some] None show ?thesis by simp
  qed
next
  case (Some y)
  from fetch_loop_zero_Some [OF Some] Some show ?thesis by simp
qed

text \<open>
  Every run that returns has sent a trace of this form, and a run with a limit other
  than \<open>0\<close> returns whatever the server answers.
\<close>

lemma trace_ok_single:
  assumes "req_page r = page" and "last_agrees get r out"
  shows "trace_ok get page [r] out"
  using assms by (simp add: trace_ok_def)

lemma trace_ok_Cons:
  assumes "req_page r = page" and "get r = Inr d" and "trace_ok get (page + 1) new out"
  shows "trace_ok get page (r # new) out"
proof -
  from assms(3) have ne: "new \<noteq> []" by (simp add: trace_ok_def)
  have "[page ..< page + length (r # new)] = page # [Suc page ..< page + length (r # new)]"
    by (rule upt_conv_Cons) simp
  moreover have "page + length (r # new) = page + 1 + length new" by simp
  ultimately have m: "map req_page (r # new) = [page ..< page + length (r # new)]"
    using assms(1,3) by (simp add: trace_ok_def)
  have "answered get r" using assms(2) by (simp add: answered_def)
  then have b: "list_all (answered get) (butlast (r # new))"
    using assms(3) ne by (simp add: trace_ok_def)
  have l: "last_agrees get (last (r # new)) out"
    using assms(3) ne by (simp add: trace_ok_def)
  from m b l show ?thesis unfolding trace_ok_def by blast
qed

lemma fetch_loop_trace:
  assumes "fetch_loop get self limit per_page sent all_posts page = Some y"
  shows "\<exists>new. fst y = sent @ new \<and> trace_ok get page new (snd y)"
proof (rule fetch_loop.raw_induct
    [where P = "\<lambda>get self limit per_page sent all_posts page y.
       \<exists>new. fst y = sent @ new \<and> trace_ok get page new (snd y)",
     OF _ assms])
  fix f get self limit per_page sent all_posts page y
  assume ih: "\<And>get self limit per_page sent all_posts page y.
      f get self limit per_page sent all_posts page = Some y \<Longrightarrow>
      \<exists>new. fst y = sent @ new \<and> trace_ok get page new (snd y)"
  and body: "(let request = params self page (page_limit limit per_page all_posts);
          sent' = sent @ [request]
      in case get request of Inl e \<Rightarrow> Some (sent', Inl (RequestException e))
         | Inr data \<Rightarrow>
             let posts = posts_of data
             in if posts = [] then Some (sent', Inr all_posts)
                else let all_posts' = all_posts @ posts
                     in if int (length posts) < per_page
                        then Some (sent', Inr all_posts')
                        else if limit_reached limit all_posts'
                             then Some (sent', Inr all_posts')
                             else f get self limit per_page sent'
                                   all_posts' (page + 1)) = Some y"
  define req where "req = params self page (page_limit limit per_page all_posts)"
  have pg: "req_page req = page" by (simp add: req_def params_def)
  show "\<exists>new. fst y = sent @ new \<and> trace_ok get page new (snd y)"
  proof (cases "get req")
    case (Inl e)
    with body have "y = (sent @ [req], Inl (RequestException e))"
      by (simp add: req_def Let_def)
    moreover have "trace_ok get page [req] (Inl (RequestException e))"
      using pg Inl by (intro trace_ok_single) (simp_all add: last_agrees_def)
    ultimately show ?thesis by auto
  next
    case (Inr data)
    consider (stop) ps where "y = (sent @ [req], Inr ps)"
      | (go) "f get self limit per_page (sent @ [req]) (all_posts @ posts_of data) (page + 1) = Some y"
      using body Inr by (auto simp: req_def Let_def split: if_splits)
    then show ?thesis
    proof cases
      case stop
      moreover have "trace_ok get page [req] (Inr ps)"
        using pg Inr by (intro trace_ok_single) (simp_all add: last_agrees_def answered_def)
      ultimately show ?thesis by auto
    next
      case go
      from ih [OF go] obtain new where
        new: "fst y = (sent @ [req]) @ new" "trace_ok get (page + 1) new (snd y)" by blast
      have "trace_ok get page (req # new) (snd y)"
        using pg Inr new(2) by (rule trace_ok_Cons)
      with new(1) show ?thesis by auto
    qed
  qed
qed

lemma fetch_all_posts_trace:
  assumes "fetch_all_posts get self limit = Some (sent, out)"
  shows "trace_ok get 1 sent out"
  using fetch_loop_trace [OF assms [unfolded fetch_all_posts_def]] by simp


lemma fetch_loop_returns:
  assumes "l \<noteq> 0"
  shows "\<exists>y. fetch_loop get self (Some l) per_page sent all_posts page = Some y"
  using assms
proof (induction "nat (l - int (length all_posts))" arbitrary: sent all_posts page rule: less_induct)
  case less
  define req where "req = params self page (page_limit (Some l) per_page all_posts)"
  show ?case
  proof (cases "get req")
    case (Inl f)
    then show ?thesis
      using fetch_loop_fail [where get = get and sent = sent] unfolding req_def by blast
  next
    case (Inr data)
    note g = Inr [unfolded req_def]
    show ?thesis
    proof (cases "posts_of data = []")
      case True
      then show ?thesis
        using fetch_loop_empty [where get = get and sent = sent, OF g] by blast
    next
      case ne: False
      show ?thesis
      proof (cases "int (length (posts_of data)) < per_page")
        case True
        then show ?thesis
          using fetch_loop_short [where get = get and sent = sent, OF g ne] by blast
      next
        case nsh: False
        show ?thesis
        proof (cases "limit_reached (Some l) (all_posts @ posts_of data)")
          case True
          then show ?thesis
            using fetch_loop_reached [where get = get and sent = sent, OF g ne nsh] by blast
        next
          case nr: False
          then have "int (length (all_posts @ posts_of data)) < l"
            using less.prems by (simp add: limit_reached_def)
          moreover have "length all_posts < length (all_posts @ posts_of data)"
            using ne by simp
          ultimately have
            "nat (l - int (length (all_posts @ posts_of data))) < nat (l - int (length all_posts))"
            by linarith
          from less.hyps [OF this less.prems] show ?thesis
            unfolding fetch_loop_next [where get = get and sent = sent, OF g ne nsh nr] .
        qed
      qed
    qed
  qed
qed

lemma fetch_all_posts_returns:
  "l \<noteq> 0 \<Longrightarrow> \<exists>y. fetch_all_posts get self (Some l) = Some y"
  unfolding fetch_all_posts_def by (rule fetch_loop_returns)

section \<open>Claims about the fetcher\<close>




text \<open>
  C2. At every state of the pagination loop: when the page requested
  returns strictly fewer posts than the page size requested for it, the loop ends
  with this page; the requests sent are those sent before and this one, no further.
\<close>

theorem short_page_ends_pagination:
  assumes "get (params self page (page_limit limit per_page all_posts)) = Inr data"
    and "int (length (posts_of data)) < page_limit limit per_page all_posts"
  shows "fetch_loop get self limit per_page sent all_posts page =
     Some (sent @ [params self page (page_limit limit per_page all_posts)],
           Inr (all_posts @ posts_of data))"
proof -
  have "int (length (posts_of data)) < per_page"
    using assms(2) page_limit_le [of limit per_page all_posts] by linarith
  then show ?thesis
    using assms(1) by (subst fetch_loop.simps) (simp add: Let_def)
qed

theorem short_page_ends_pagination_witness:
  "fetch_loop (ghost_api [sample_post]) sample_self None 100 [] [] 1 =
     Some ([params sample_self 1 100], Inr [sample_post])"
  using short_page_ends_pagination
    [of "ghost_api [sample_post]" sample_self 1 None 100 "[]" "Some [sample_post]" "[]"]
  by (simp add: page_limit_def ghost_api_def params_def posts_of_def)



text \<open>
  C9. \<open>fetch_all_posts\<close> with \<open>limit = 0\<close> behaves as with no limit, whatever
  the server answers; on a source that pages as the Content API does it returns every
  post of the source (so not zero posts, unless the source is empty).
\<close>

theorem fetch_all_posts_zero_limit:
  "fetch_all_posts get self (Some 0) = fetch_all_posts get self None \<and>
   (\<exists>sent. fetch_all_posts (ghost_api src) self (Some 0) = Some (sent, Inr src))"
proof
  show "fetch_all_posts get self (Some 0) = fetch_all_posts get self None"
    by (simp add: fetch_all_posts_def limit_or_def fetch_loop_zero_limit)
  have "\<exists>sent'. fetch_loop (ghost_api src) self (Some 0) 100 [] [] 1 = Some (sent', Inr src)"
    by (rule loop_exhausts) simp_all
  then show "\<exists>sent. fetch_all_posts (ghost_api src) self (Some 0) = Some (sent, Inr src)"
    by (simp add: fetch_all_posts_def limit_or_def)
qed

section \<open>Lemmas about persistence\<close>

text \<open>The digits of the timestamp.\<close>

lemma dec_1: "n < 10 \<Longrightarrow> dec n = [48 + n]"
  by (simp add: dec_def digits.simps)

lemma dec_2: "10 \<le> n \<Longrightarrow> n < 100 \<Longrightarrow> dec n = [48 + n div 10, 48 + n mod 10]"
  by (simp add: dec_def digits.simps [of n] digits.simps [of "n div 10"])

lemma pad2_eq: "n < 100 \<Longrightarrow> pad2 n = [48 + n div 10, 48 + n mod 10]"
  by (cases "n < 10") (simp_all add: pad2_def zfill_def dec_1 dec_2)

lemma dec_4:
  assumes "1000 \<le> n" and "n < 10000"
  shows "dec n = [48 + n div 1000, 48 + n div 100 mod 10, 48 + n div 10 mod 10, 48 + n mod 10]"
proof -
  have a: "digits (n div 1000) = [n div 1000]"
    using assms by (subst digits.simps) simp
  have b: "digits (n div 100) = [n div 1000, n div 100 mod 10]"
    using assms a by (subst digits.simps) (simp add: div_mult2_eq [symmetric])
  have c: "digits (n div 10) = [n div 1000, n div 100 mod 10, n div 10 mod 10]"
    using assms b by (subst digits.simps) (simp add: div_mult2_eq [symmetric])
  have "digits n = [n div 1000, n div 100 mod 10, n div 10 mod 10, n mod 10]"
    using assms c by (subst digits.simps) simp
  then show ?thesis by (simp add: dec_def)
qed

lemma two_digits_inj:
  assumes "a div 10 = b div 10" and "a mod 10 = b mod 10"
  shows "a = (b::nat)"
proof -
  have "a = a div 10 * 10 + a mod 10" by simp
  also have "\<dots> = b div 10 * 10 + b mod 10" using assms by simp
  also have "\<dots> = b" by simp
  finally show ?thesis .
qed

lemma four_digits_inj:
  assumes "a div 1000 = b div 1000" and "a div 100 mod 10 = b div 100 mod 10"
    and "a div 10 mod 10 = b div 10 mod 10" and "a mod 10 = b mod 10"
  shows "a = (b::nat)"
proof -
  have "a div 100 div 10 = b div 100 div 10"
    using assms(1) by (simp add: div_mult2_eq [symmetric])
  then have "a div 100 = b div 100"
    using assms(2) by (rule two_digits_inj)
  then have "a div 10 div 10 = b div 10 div 10"
    by (simp add: div_mult2_eq [symmetric])
  then have "a div 10 = b div 10"
    using assms(3) by (rule two_digits_inj)
  then show ?thesis
    using assms(4) by (rule two_digits_inj)
qed

lemma strftime_eq:
  assumes "valid_datetime t"
  shows "strftime t =
     [48 + year t div 1000, 48 + year t div 100 mod 10, 48 + year t div 10 mod 10,
      48 + year t mod 10,
      48 + month t div 10, 48 + month t mod 10, 48 + day t div 10, 48 + day t mod 10, 95,
      48 + hour t div 10, 48 + hour t mod 10, 48 + minute t div 10, 48 + minute t mod 10,
      48 + second t div 10, 48 + second t mod 10]"
  using assms by (simp add: strftime_def valid_datetime_def dec_4 pad2_eq)

lemma strftime_inj:
  assumes "valid_datetime a" and "valid_datetime b" and "strftime a = strftime b"
  shows "same_second a b"
proof -
  from assms(3) have e:
    "year a div 1000 = year b div 1000" "year a div 100 mod 10 = year b div 100 mod 10"
    "year a div 10 mod 10 = year b div 10 mod 10" "year a mod 10 = year b mod 10"
    "month a div 10 = month b div 10" "month a mod 10 = month b mod 10"
    "day a div 10 = day b div 10" "day a mod 10 = day b mod 10"
    "hour a div 10 = hour b div 10" "hour a mod 10 = hour b mod 10"
    "minute a div 10 = minute b div 10" "minute a mod 10 = minute b mod 10"
    "second a div 10 = second b div 10" "second a mod 10 = second b mod 10"
    unfolding strftime_eq [OF assms(1)] strftime_eq [OF assms(2)] by simp_all
  have "year a = year b" using e(1-4) by (rule four_digits_inj)
  moreover have "month a = month b"
    using e(5,6) by (rule two_digits_inj)
  moreover have "day a = day b"
    using e(7,8) by (rule two_digits_inj)
  moreover have "hour a = hour b"
    using e(9,10) by (rule two_digits_inj)
  moreover have "minute a = minute b"
    using e(11,12) by (rule two_digits_inj)
  moreover have "second a = second b"
    using e(13,14) by (rule two_digits_inj)
  ultimately show ?thesis by (simp add: same_second_def)
qed

text \<open>Lookups in a post extended by one field, and the keys of the fields.\<close>

lemma dict_get_append:
  "map_of post k = None \<Longrightarrow>
   dict_get (post @ [(k, v)]) k' d = (if k' = k then v else dict_get post k' d)"
  by (auto simp: dict_get_def map_add_def split: option.splits)

lemma dict_get_absent: "map_of post k = None \<Longrightarrow> dict_get post k d = d"
  by (simp add: dict_get_def)

lemma key_neq:
  "pystr_of ''title'' \<noteq> pystr_of ''slug''"
  "pystr_of ''title'' \<noteq> pystr_of ''html''"
  "pystr_of ''title'' \<noteq> pystr_of ''excerpt''"
  "pystr_of ''title'' \<noteq> pystr_of ''published_at''"
  "pystr_of ''title'' \<noteq> pystr_of ''reading_time''"
  "pystr_of ''title'' \<noteq> pystr_of ''tags''"
  "pystr_of ''title'' \<noteq> pystr_of ''authors''"
  "pystr_of ''title'' \<noteq> pystr_of ''id''"
  "pystr_of ''title'' \<noteq> pystr_of ''url''"
  "pystr_of ''slug'' \<noteq> pystr_of ''title''"
  "pystr_of ''slug'' \<noteq> pystr_of ''html''"
  "pystr_of ''slug'' \<noteq> pystr_of ''excerpt''"
  "pystr_of ''slug'' \<noteq> pystr_of ''published_at''"
  "pystr_of ''slug'' \<noteq> pystr_of ''reading_time''"
  "pystr_of ''slug'' \<noteq> pystr_of ''tags''"
  "pystr_of ''slug'' \<noteq> pystr_of ''authors''"
  "pystr_of ''slug'' \<noteq> pystr_of ''id''"
  "pystr_of ''slug'' \<noteq> pystr_of ''url''"
  "pystr_of ''html'' \<noteq> pystr_of ''title''"
  "pystr_of ''html'' \<noteq> pystr_of ''slug''"
  "pystr_of ''html'' \<noteq> pystr_of ''excerpt''"
  "pystr_of ''html'' \<noteq> pystr_of ''published_at''"
  "pystr_of ''html'' \<noteq> pystr_of ''reading_time''"
  "pystr_of ''html'' \<noteq> pystr_of ''tags''"
  "pystr_of ''html'' \<noteq> pystr_of ''authors''"
  "pystr_of ''html'' \<noteq> pystr_of ''id''"
  "pystr_of ''html'' \<noteq> pystr_of ''url''"
  "pystr_of ''excerpt'' \<noteq> pystr_of ''title''"
  "pystr_of ''excerpt'' \<noteq> pystr_of ''slug''"
  "pystr_of ''excerpt'' \<noteq> pystr_of ''html''"
  "pystr_of ''excerpt'' \<noteq> pystr_of ''published_at''"
  "pystr_of ''excerpt'' \<noteq> pystr_of ''reading_time''"
  "pystr_of ''excerpt'' \<noteq> pystr_of ''tags''"
  "pystr_of ''excerpt'' \<noteq> pystr_of ''authors''"
  "pystr_of ''excerpt'' \<noteq> pystr_of ''id''"
  "pystr_of ''excerpt'' \<noteq> pystr_of ''url''"
  "pystr_of ''published_at'' \<noteq> pystr_of ''title''"
  "pystr_of ''published_at'' \<noteq> pystr_of ''slug''"
  "pystr_of ''published_at'' \<noteq> pystr_of ''html''"
  "pystr_of ''published_at'' \<noteq> pystr_of ''excerpt''"
  "pystr_of ''published_at'' \<noteq> pystr_of ''reading_time''"
  "pystr_of ''published_at'' \<noteq> pystr_of ''tags''"
  "pystr_of ''published_at'' \<noteq> pystr_of ''authors''"
  "pystr_of ''published_at'' \<noteq> pystr_of ''id''"
  "pystr_of ''published_at'' \<noteq> pystr_of ''url''"
  "pystr_of ''reading_time'' \<noteq> pystr_of ''title''"
  "pystr_of ''reading_time'' \<noteq> pystr_of ''slug''"
  "pystr_of ''reading_time'' \<noteq> pystr_of ''html''"
  "pystr_of ''reading_time'' \<noteq> pystr_of ''excerpt''"
  "pystr_of ''reading_time'' \<noteq> pystr_of ''published_at''"
  "pystr_of ''reading_time'' \<noteq> pystr_of ''tags''"
  "pystr_of ''reading_time'' \<noteq> pystr_of ''authors''"
  "pystr_of ''reading_time'' \<noteq> pystr_of ''id''"
  "pystr_of ''reading_time'' \<noteq> pystr_of ''url''"
  "pystr_of ''tags'' \<noteq> pystr_of ''title''"
  "pystr_of ''tags'' \<noteq> pystr_of ''slug''"
  "pystr_of ''tags'' \<noteq> pystr_of ''html''"
  "pystr_of ''tags'' \<noteq> pystr_of ''excerpt''"
  "pystr_of ''tags'' \<noteq> pystr_of ''published_at''"
  "pystr_of ''tags'' \<noteq> pystr_of ''reading_time''"
  "pystr_of ''tags'' \<noteq> pystr_of ''authors''"
  "pystr_of ''tags'' \<noteq> pystr_of ''id''"
  "pystr_of ''tags'' \<noteq> pystr_of ''url''"
  "pystr_of ''authors'' \<noteq> pystr_of ''title''"
  "pystr_of ''authors'' \<noteq> pystr_of ''slug''"
  "pystr_of ''authors'' \<noteq> pystr_of ''html''"
  "pystr_of ''authors'' \<noteq> pystr_of ''excerpt''"
  "pystr_of ''authors'' \<noteq> pystr_of ''published_at''"
  "pystr_of ''authors'' \<noteq> pystr_of ''reading_time''"
  "pystr_of ''authors'' \<noteq> pystr_of ''tags''"
  "pystr_of ''authors'' \<noteq> pystr_of ''id''"
  "pystr_of ''authors'' \<noteq> pystr_of ''url''"
  "pystr_of ''id'' \<noteq> pystr_of ''title''"
  "pystr_of ''id'' \<noteq> pystr_of ''slug''"
  "pystr_of ''id'' \<noteq> pystr_of ''html''"
  "pystr_of ''id'' \<noteq> pystr_of ''excerpt''"
  "pystr_of ''id'' \<noteq> pystr_of ''published_at''"
  "pystr_of ''id'' \<noteq> pystr_of ''reading_time''"
  "pystr_of ''id'' \<noteq> pystr_of ''tags''"
  "pystr_of ''id'' \<noteq> pystr_of ''authors''"
  "pystr_of ''id'' \<noteq> pystr_of ''url''"
  "pystr_of ''url'' \<noteq> pystr_of ''title''"
  "pystr_of ''url'' \<noteq> pystr_of ''slug''"
  "pystr_of ''url'' \<noteq> pystr_of ''html''"
  "pystr_of ''url'' \<noteq> pystr_of ''excerpt''"
  "pystr_of ''url'' \<noteq> pystr_of ''published_at''"
  "pystr_of ''url'' \<noteq> pystr_of ''reading_time''"
  "pystr_of ''url'' \<noteq> pystr_of ''tags''"
  "pystr_of ''url'' \<noteq> pystr_of ''authors''"
  "pystr_of ''url'' \<noteq> pystr_of ''id''"
  by (simp_all add: pystr_of_def)

lemma txt_file_default:
  assumes "map_of post k = None" and "(k, v) \<in> set (txt_defaults repr post)"
  shows "txt_file repr out (post @ [(k, v)]) = txt_file repr out post"
proof -
  from assms(2) consider
      "k = pystr_of ''title''" "v = JStr (pystr_of ''untitled'')"
    | "k = pystr_of ''slug''" "v = JStr (pystr_of ''post-'' @
             py_format repr (dict_get post (pystr_of ''id'') (JStr (pystr_of ''unknown''))))"
    | "k = pystr_of ''html''" "v = JStr []"
    | "k = pystr_of ''excerpt''" "v = JStr no_excerpt"
    | "k = pystr_of ''published_at''" "v = JStr []"
    | "k = pystr_of ''reading_time''" "v = JInt 0"
    | "k = pystr_of ''tags''" "v = JList []"
    | "k = pystr_of ''authors''" "v = JList []"
    unfolding txt_defaults_def by auto
  then show ?thesis
  proof cases
    case 1
    have m: "map_of post k = None" by (rule assms(1))
    show ?thesis
      using m unfolding 1
      by (simp add: txt_file_def txt_content_def dict_get_append dict_get_absent key_neq Let_def cong: json.case_cong)
  next
    case 2
    have m: "map_of post k = None" by (rule assms(1))
    show ?thesis
      using m unfolding 2
      by (simp add: txt_file_def txt_content_def dict_get_append dict_get_absent key_neq Let_def cong: json.case_cong)
  next
    case 3
    have m: "map_of post k = None" by (rule assms(1))
    show ?thesis
      using m unfolding 3
      by (simp add: txt_file_def txt_content_def dict_get_append dict_get_absent key_neq Let_def cong: json.case_cong)
  next
    case 4
    have m: "map_of post k = None" by (rule assms(1))
    show ?thesis
      using m unfolding 4
      by (simp add: txt_file_def txt_content_def dict_get_append dict_get_absent key_neq Let_def cong: json.case_cong)
  next
    case 5
    have m: "map_of post k = None" by (rule assms(1))
    show ?thesis
      using m unfolding 5
      by (simp add: txt_file_def txt_content_def dict_get_append dict_get_absent key_neq Let_def cong: json.case_cong)
  next
    case 6
    have m: "map_of post k = None" by (rule assms(1))
    show ?thesis
      using m unfolding 6
      by (simp add: txt_file_def txt_content_def dict_get_append dict_get_absent key_neq Let_def cong: json.case_cong)
  next
    case 7
    have m: "map_of post k = None" by (rule assms(1))
    show ?thesis
      using m unfolding 7
      by (simp add: txt_file_def txt_content_def dict_get_append dict_get_absent key_neq Let_def cong: json.case_cong)
  next
    case 8
    have m: "map_of post k = None" by (rule assms(1))
    show ?thesis
      using m unfolding 8
      by (simp add: txt_file_def txt_content_def dict_get_append dict_get_absent key_neq Let_def cong: json.case_cong)
  qed
qed

lemma index_entry_default:
  assumes "map_of post k = None" and "(k, v) \<in> set (index_defaults)"
  shows "index_entry (post @ [(k, v)]) = index_entry post"
proof -
  from assms(2) consider
      "k = pystr_of ''slug''" "v = JNull"
    | "k = pystr_of ''title''" "v = JNull"
    | "k = pystr_of ''excerpt''" "v = JNull"
    | "k = pystr_of ''published_at''" "v = JNull"
    | "k = pystr_of ''reading_time''" "v = JNull"
    | "k = pystr_of ''tags''" "v = JList []"
    | "k = pystr_of ''url''" "v = JNull"
    unfolding index_defaults_def by auto
  then show ?thesis
  proof cases
    case 1
    have m: "map_of post k = None" by (rule assms(1))
    show ?thesis
      using m unfolding 1
      by (simp add: index_entry_def dict_get_append dict_get_absent key_neq Let_def cong: json.case_cong)
  next
    case 2
    have m: "map_of post k = None" by (rule assms(1))
    show ?thesis
      using m unfolding 2
      by (simp add: index_entry_def dict_get_append dict_get_absent key_neq Let_def cong: json.case_cong)
  next
    case 3
    have m: "map_of post k = None" by (rule assms(1))
    show ?thesis
      using m unfolding 3
      by (simp add: index_entry_def dict_get_append dict_get_absent key_neq Let_def cong: json.case_cong)
  next
    case 4
    have m: "map_of post k = None" by (rule assms(1))
    show ?thesis
      using m unfolding 4
      by (simp add: index_entry_def dict_get_append dict_get_absent key_neq Let_def cong: json.case_cong)
  next
    case 5
    have m: "map_of post k = None" by (rule assms(1))
    show ?thesis
      using m unfolding 5
      by (simp add: index_entry_def dict_get_append dict_get_absent key_neq Let_def cong: json.case_cong)
  next
    case 6
    have m: "map_of post k = None" by (rule assms(1))
    show ?thesis
      using m unfolding 6
      by (simp add: index_entry_def dict_get_append dict_get_absent key_neq Let_def cong: json.case_cong)
  next
    case 7
    have m: "map_of post k = None" by (rule assms(1))
    show ?thesis
      using m unfolding 7
      by (simp add: index_entry_def dict_get_append dict_get_absent key_neq Let_def cong: json.case_cong)
  qed
qed

text \<open>The comprehensions and joins on lists of mappings.\<close>

lemma item_name_named:
  assumes "mapping_ok x" and "has_name x"
  shows "\<exists>n. item_name x = Inr (JStr n)"
proof -
  from assms(2) obtain d v where x: "x = JObj d" and v: "map_of d (pystr_of ''name'') = Some v"
    by (auto simp: has_name_def split: json.splits)
  from assms(1) x v obtain n where "v = JStr n"
    by (cases v) (simp_all add: mapping_ok_def)
  with x v show ?thesis by (simp add: item_name_def)
qed


lemma item_names_complete:
  "list_all mapping_ok xs \<Longrightarrow> list_all has_name xs \<Longrightarrow>
   \<exists>ns. map_result item_name xs = Inr (map JStr ns)"
proof (induction xs)
  case Nil
  then show ?case by simp
next
  case (Cons x xs)
  then obtain n where n: "item_name x = Inr (JStr n)"
    using item_name_named [of x] by auto
  from Cons obtain ns where ns: "map_result item_name xs = Inr (map JStr ns)" by auto
  have "map_result item_name (x # xs) = Inr (map JStr (n # ns))"
    by (simp add: n ns and_then_def)
  then show ?case by blast
qed


lemma map_result_as_str: "map_result as_str (map JStr ns) = Inr ns"
  by (induction ns) (simp_all add: as_str_def and_then_def)

lemma join_names_strs: "join_names (map JStr ns) = Inr (join (pystr_of '', '') ns)"
  by (simp add: join_names_def map_result_as_str and_then_def)

lemma names_of_complete:
  assumes "mappings_ok v" and "all_named v"
  shows "\<exists>ns. names_of v = Inr (map JStr ns)"
proof -
  from assms obtain xs where v: "v = JList xs" and "list_all mapping_ok xs" "list_all has_name xs"
    by (auto simp: mappings_ok_def all_named_def split: json.splits)
  then show ?thesis
    using item_names_complete [of xs] by (simp add: names_of_def iter_def and_then_def)
qed


lemma strip_html_tags_ok:
  "is_str v \<or> \<not> truthy v \<Longrightarrow> \<exists>t. strip_html_tags v = Inr t"
  by (auto simp: strip_html_tags_def is_str_def split: json.splits)

lemma txt_file_complete:
  assumes "well_typed post" and "names_complete post"
  shows "\<exists>n t. txt_file repr out post = Inr (Join out n, t)"
proof -
  from assms(1) obtain title where
    t: "dict_get post (pystr_of ''title'') (JStr (pystr_of ''untitled'')) = JStr title"
    by (auto simp: well_typed_def is_str_def split: json.splits)
  from assms(1) obtain body where
    h: "strip_html_tags (dict_get post (pystr_of ''html'') (JStr [])) = Inr body"
    using strip_html_tags_ok unfolding well_typed_def by blast
  from assms obtain ts where
    ts: "names_of (dict_get post (pystr_of ''tags'') (JList [])) = Inr (map JStr ts)"
    using names_of_complete unfolding well_typed_def names_complete_def tags_complete_def by blast
  from assms obtain as where
    as: "names_of (dict_get post (pystr_of ''authors'') (JList [])) = Inr (map JStr as)"
    using names_of_complete unfolding well_typed_def names_complete_def by blast
  show ?thesis
    by (simp add: txt_file_def t h ts as join_names_strs and_then_def Let_def)
qed


lemma index_entry_complete:
  assumes "well_typed post" and "tags_complete post"
  shows "\<exists>e. index_entry post = Inr e"
proof -
  from assms obtain ts where
    "names_of (dict_get post (pystr_of ''tags'') (JList [])) = Inr (map JStr ts)"
    using names_of_complete unfolding well_typed_def tags_complete_def by blast
  then show ?thesis by (simp add: index_entry_def and_then_def)
qed


lemma index_entries_complete:
  "list_all well_typed posts \<Longrightarrow> list_all tags_complete posts \<Longrightarrow>
   \<exists>es. map_result index_entry posts = Inr es"
proof (induction posts)
  case Nil
  then show ?case by simp
next
  case (Cons p ps)
  then obtain e es where "index_entry p = Inr e" "map_result index_entry ps = Inr es"
    using index_entry_complete [of p] by auto
  then show ?case by (simp add: and_then_def)
qed


lemma save_txt_loop_complete:
  "list_all well_typed posts \<Longrightarrow> list_all names_complete posts \<Longrightarrow>
   \<exists>effs' files. save_txt_loop repr out posts effs saved = (effs', Inr (saved @ files)) \<and>
      length files = length posts"
proof (induction posts arbitrary: effs saved)
  case Nil
  then show ?case by simp
next
  case (Cons p ps)
  then obtain n t where nt: "txt_file repr out p = Inr (Join out n, t)"
    using txt_file_complete [of p repr out] by auto
  from Cons obtain effs' files where
    "save_txt_loop repr out ps (effs @ [WriteFile (Join out n) (Text t)]) (saved @ [Join out n])
       = (effs', Inr ((saved @ [Join out n]) @ files))" "length files = length ps"
    by fastforce
  then have "save_txt_loop repr out (p # ps) effs saved = (effs', Inr (saved @ (Join out n # files)))
      \<and> length (Join out n # files) = length (p # ps)"
    by (simp add: nt)
  then show ?case by blast
qed


text \<open>The effects of \<open>save_as_txt\<close>, \<open>save_as_json\<close> and \<open>save_index\<close> by kind.\<close>

lemma save_txt_loop_effects:
  "save_txt_loop repr out posts effs saved = (effs', r) \<Longrightarrow>
   \<exists>ws. effs' = effs @ ws \<and> list_all (txt_write out) ws \<and>
        (case r of Inr files \<Rightarrow> length ws = length posts | Inl e \<Rightarrow> True)"
proof (induction posts arbitrary: effs saved)
  case Nil
  then show ?case by auto
next
  case (Cons p ps)
  show ?case
  proof (cases "txt_file repr out p")
    case (Inl e)
    with Cons.prems show ?thesis by auto
  next
    case (Inr a)
    obtain fp t where a: "a = (fp, t)" by (cases a)
    have fp: "\<exists>n. fp = Join out n"
      using Inr a
      by (auto simp: txt_file_def and_then_def Let_def split: json.splits sum.splits)
    from Cons.prems Inr a have
      "save_txt_loop repr out ps (effs @ [WriteFile fp (Text t)]) (saved @ [fp]) = (effs', r)"
      by simp
    from Cons.IH [OF this] obtain ws where
      ws: "effs' = (effs @ [WriteFile fp (Text t)]) @ ws" "list_all (txt_write out) ws"
          "(case r of Inr files \<Rightarrow> length ws = length ps | Inl e \<Rightarrow> True)"
      by blast
    have "effs' = effs @ (WriteFile fp (Text t) # ws)" using ws(1) by simp
    moreover have "list_all (txt_write out) (WriteFile fp (Text t) # ws)"
      using ws(2) fp by (auto simp: txt_write_def)
    moreover have "(case r of Inr files \<Rightarrow> length (WriteFile fp (Text t) # ws) = length (p # ps)
                     | Inl e \<Rightarrow> True)"
      using ws(3) by (cases r) simp_all
    ultimately show ?thesis by blast
  qed
qed

lemma txt_write_kinds:
  assumes "txt_write (Join (Path d) (pystr_of ''txt'')) w"
  shows "is_txt d w" and "\<not> is_dump d w" and "\<not> is_index d w"
proof -
  from assms obtain n c where w: "w = WriteFile (Join (Join (Path d) (pystr_of ''txt'')) n) c"
    by (auto simp: txt_write_def split: effect.splits path.splits)
  show "is_txt d w" "\<not> is_dump d w" "\<not> is_index d w"
    by (simp_all add: w)
qed

lemma txt_writes_kinds:
  assumes "list_all (txt_write (Join (Path d) (pystr_of ''txt''))) ws"
  shows "\<not> list_ex (is_dump d) ws" and "\<not> list_ex (is_index d) ws"
    and "list_ex (is_txt d) ws \<longleftrightarrow> ws \<noteq> []"
  using assms by (induction ws) (auto dest: txt_write_kinds)

lemma save_as_txt_kinds:
  assumes "save_as_txt repr posts (Join (Path d) (pystr_of ''txt'')) = (effs, r)"
  shows "\<not> list_ex (is_dump d) effs" and "\<not> list_ex (is_index d) effs"
    and "\<And>files. r = Inr files \<Longrightarrow> posts \<noteq> [] \<Longrightarrow> list_ex (is_txt d) effs"
proof -
  from save_txt_loop_effects [OF assms [unfolded save_as_txt_def]] obtain ws where
    ws: "effs = [MkDir (Join (Path d) (pystr_of ''txt'')) True] @ ws"
        "list_all (txt_write (Join (Path d) (pystr_of ''txt''))) ws"
        "(case r of Inr files \<Rightarrow> length ws = length posts | Inl e \<Rightarrow> True)"
    by blast
  show "\<not> list_ex (is_dump d) effs" "\<not> list_ex (is_index d) effs"
    using txt_writes_kinds(1,2) [OF ws(2)] by (simp_all add: ws(1))
  fix files
  assume "r = Inr files" "posts \<noteq> []"
  with ws(3) have "ws \<noteq> []" by auto
  then show "list_ex (is_txt d) effs"
    using txt_writes_kinds(3) [OF ws(2)] by (simp add: ws(1))
qed

lemma json_kinds:
  assumes "save_as_json self now1 now2 posts d = (effs, f)"
  shows "list_ex (is_dump d) effs" and "\<not> list_ex (is_index d) effs" and "\<not> list_ex (is_txt d) effs"
  using assms
  by (auto simp: save_as_json_def Let_def json_name_def pystr_of_def)

lemma index_kinds:
  assumes "save_index posts d = (effs, r)"
  shows "\<not> list_ex (is_dump d) effs" and "\<not> list_ex (is_txt d) effs"
    and "\<And>f. r = Inr f \<Longrightarrow> list_ex (is_index d) effs"
  using assms
  by (auto simp: save_index_def Let_def pystr_of_def split: sum.splits)

lemma kinds_of_run:
  assumes "fetch_all_posts get self limit = Some (sent, Inr posts)" and "posts \<noteq> []"
    and "fetch_and_save get repr now1 now2 self d save_json save_txt limit =
           Some (sent', effs, Inr ())"
  shows "list_ex (is_dump d) effs = save_json \<and> list_ex (is_index d) effs = save_json \<and>
         list_ex (is_txt d) effs = save_txt"
proof -
  obtain ej jf where j: "save_as_json self now1 now2 posts d = (ej, jf)"
    by (cases "save_as_json self now1 now2 posts d")
  obtain ei ri where i: "save_index posts d = (ei, ri)"
    by (cases "save_index posts d")
  obtain et rt where t: "save_as_txt repr posts (Join (Path d) (pystr_of ''txt'')) = (et, rt)"
    by (cases "save_as_txt repr posts (Join (Path d) (pystr_of ''txt''))")
  note kj = json_kinds [OF j] and ki = index_kinds [OF i] and kt = save_as_txt_kinds [OF t]
  from assms have p: "persist repr now1 now2 self d save_json save_txt posts = (tl effs, Inr ())"
    and hd: "effs = MkDir (Path d) True # tl effs"
    by (auto simp: fetch_and_save_def Let_def split: prod.splits)
  show ?thesis
  proof (cases save_json)
    case True
    note sj = this
    from p sj j i obtain fi where ri: "ri = Inr fi"
      by (cases ri) (auto simp: persist_def and_then_def Let_def split: prod.splits if_splits)
    show ?thesis
    proof (cases save_txt)
      case True
      from p sj True j i t ri obtain files where rt: "rt = Inr files" and e: "tl effs = ej @ ei @ et"
        by (cases rt) (auto simp: persist_def and_then_def Let_def)
      show ?thesis
        using kj ki(1,2) ki(3) [OF ri] kt(1,2) kt(3) [OF rt assms(2)] sj True
        by (subst hd, subst hd, subst hd) (simp add: e)
    next
      case False
      from p sj False j i ri have e: "tl effs = ej @ ei"
        by (auto simp: persist_def and_then_def Let_def)
      show ?thesis
        using kj ki(1,2) ki(3) [OF ri] sj False
        by (subst hd, subst hd, subst hd) (simp add: e)
    qed
  next
    case False
    note sj = this
    show ?thesis
    proof (cases save_txt)
      case True
      from p sj True t obtain files where rt: "rt = Inr files" and e: "tl effs = et"
        by (cases rt) (auto simp: persist_def and_then_def Let_def)
      show ?thesis
        using kt(1,2) kt(3) [OF rt assms(2)] sj True
        by (subst hd, subst hd, subst hd) (simp add: e)
    next
      case False
      from p sj False have e: "tl effs = []"
        by (auto simp: persist_def and_then_def Let_def)
      show ?thesis
        using sj False
        by (subst hd, subst hd, subst hd) (simp add: e)
    qed
  qed
qed

text \<open>The sample data.\<close>

lemma fetch_sample:
  "fetch_all_posts (ghost_api [sample_post]) sample_self None =
     Some ([params sample_self 1 100], Inr [sample_post])"
  by (subst fetch_all_posts_def, subst fetch_loop.simps)
     (simp add: limit_or_def page_limit_def posts_of_def ghost_api_def params_def Let_def)

lemma sample_post_ok: "well_typed sample_post" "names_complete sample_post" "tags_complete sample_post"
  by (simp_all add: well_typed_def names_complete_def tags_complete_def sample_post_def
      dict_get_def key_neq is_str_def mappings_ok_def mapping_ok_def all_named_def has_name_def)





text \<open>On well-typed posts with all names the persist phase raises nothing.\<close>

lemma persist_completes:
  assumes "list_all well_typed posts" and "list_all names_complete posts"
  shows "\<exists>effs. persist repr now1 now2 self d save_json save_txt posts = (effs, Inr ())"
proof -
  have "list_all tags_complete posts"
    using assms(2) by (auto simp: list_all_iff names_complete_def)
  then obtain es where es: "map_result index_entry posts = Inr es"
    using index_entries_complete [OF assms(1)] by blast
  obtain et files where
    et: "save_as_txt repr posts (Join (Path d) (pystr_of ''txt'')) = (et, Inr files)"
    using save_txt_loop_complete [OF assms, of repr "Join (Path d) (pystr_of ''txt'')"
        "[MkDir (Join (Path d) (pystr_of ''txt'')) True]" "[]"]
    by (auto simp: save_as_txt_def)
  show ?thesis
    by (cases save_json; cases save_txt)
       (simp_all add: persist_def save_as_json_def save_index_def es et and_then_def Let_def)
qed

lemma fetch_and_save_completes:
  assumes "fetch_all_posts get self limit = Some (sent, Inr posts)"
    and "list_all well_typed posts" and "list_all names_complete posts"
  shows "\<exists>effs. fetch_and_save get repr now1 now2 self d save_json save_txt limit =
           Some (sent, effs, Inr ())"
proof (cases "posts = []")
  case True
  with assms(1) show ?thesis by (simp add: fetch_and_save_def)
next
  case False
  obtain effs where "persist repr now1 now2 self d save_json save_txt posts = (effs, Inr ())"
    using persist_completes [OF assms(2,3)] by blast
  with assms(1) False show ?thesis by (simp add: fetch_and_save_def)
qed

lemma sample_run:
  "\<exists>effs. fetch_and_save (ghost_api [sample_post]) sample_repr sample_time sample_time sample_self
      (pystr_of ''out'') save_json save_txt None = Some ([params sample_self 1 100], effs, Inr ())"
  by (rule fetch_and_save_completes [OF fetch_sample]) (simp_all add: sample_post_ok)

section \<open>Claims about persistence\<close>

text \<open>
  C4. Whenever the fetch phase yields zero posts, \<open>fetch_and_save\<close> returns
  normally, and its only effect on the file system is the creation of the output
  directory: no JSON, text or index file is written.
\<close>

theorem no_posts_no_files:
  assumes "fetch_all_posts get self limit = Some (sent, Inr [])"
  shows "\<exists>effs. fetch_and_save get repr now1 now2 self output_dir save_json save_txt limit =
            Some (sent, effs, Inr ()) \<and>
          effs = [MkDir (Path output_dir) True] \<and> written effs = []"
  using assms by (simp add: fetch_and_save_def)

theorem no_posts_no_files_witness:
  "fetch_and_save (\<lambda>r. Inr (Some [])) sample_repr sample_time sample_time sample_self
      (pystr_of ''out'') True True None =
   Some ([params sample_self 1 100], [MkDir (Path (pystr_of ''out'')) True], Inr ())"
proof -
  have "fetch_all_posts (\<lambda>r. Inr (Some [])) sample_self None =
          Some ([params sample_self 1 100], Inr [])"
    by (subst fetch_all_posts_def, subst fetch_loop.simps)
       (simp add: limit_or_def page_limit_def posts_of_def Let_def)
  from no_posts_no_files [OF this, of sample_repr sample_time sample_time "pystr_of ''out''" True True]
  show ?thesis by simp
qed

text \<open>
  C5. A post in which a field other than \<open>id\<close> is absent is persisted as
  the same post with that field set to the default of the code: in the text file
  \<open>untitled\<close> for the title, \<open>post-<id>\<close> for the slug, the Chinese for "no excerpt"
  for the excerpt, the empty string for \<open>html\<close> and \<open>published_at\<close>, zero for
  \<open>reading_time\<close> and the empty sequence for \<open>tags\<close> and \<open>authors\<close>; in the index the
  empty sequence for \<open>tags\<close> and \<open>null\<close> for every other field.
\<close>

theorem absent_field_defaults:
  assumes "map_of post k = None"
  shows "(map_of (txt_defaults repr post) k = Some v \<longrightarrow>
            txt_file repr out (post @ [(k, v)]) = txt_file repr out post) \<and>
         (map_of index_defaults k = Some v \<longrightarrow>
            index_entry (post @ [(k, v)]) = index_entry post)"
  using assms by (blast intro: txt_file_default index_entry_default dest: map_of_SomeD)

theorem absent_field_defaults_witness:
  "map_of bare_post (pystr_of ''tags'') = None \<and>
   txt_file sample_repr (Path (pystr_of ''out'')) (bare_post @ [(pystr_of ''tags'', JList [])]) =
     txt_file sample_repr (Path (pystr_of ''out'')) bare_post \<and>
   index_entry (bare_post @ [(pystr_of ''tags'', JList [])]) = index_entry bare_post"
proof -
  have a: "map_of bare_post (pystr_of ''tags'') = None"
    by (simp add: bare_post_def key_neq)
  have b: "map_of (txt_defaults sample_repr bare_post) (pystr_of ''tags'') = Some (JList [])"
    by (simp add: txt_defaults_def key_neq)
  have c: "map_of index_defaults (pystr_of ''tags'') = Some (JList [])"
    by (simp add: index_defaults_def key_neq)
  from absent_field_defaults [OF a, of sample_repr "JList []" "Path (pystr_of ''out'')"] a b c
  show ?thesis by simp
qed

theorem absent_title_counterexample:
  "map_of bare_post (pystr_of ''title'') = None \<and>
   txt_file sample_repr (Path (pystr_of ''out'')) (bare_post @ [(pystr_of ''title'', JStr [])]) \<noteq>
     txt_file sample_repr (Path (pystr_of ''out'')) bare_post \<and>
   index_entry (bare_post @ [(pystr_of ''title'', JStr [])]) \<noteq> index_entry bare_post"
proof (intro conjI)
  show a: "map_of bare_post (pystr_of ''title'') = None"
    by (simp add: bare_post_def key_neq)
  have un: "pystr_of ''untitled'' \<noteq> []" by (simp add: pystr_of_def)
  show "txt_file sample_repr (Path (pystr_of ''out'')) (bare_post @ [(pystr_of ''title'', JStr [])]) \<noteq>
     txt_file sample_repr (Path (pystr_of ''out'')) bare_post"
    by (simp add: txt_file_def txt_content_def dict_get_append [OF a] dict_get_absent [OF a] key_neq
        bare_post_def dict_get_def strip_html_tags_def names_of_def iter_def join_names_def
        and_then_def py_format_def sanitize_def un Let_def pystr_of_def)
  show "index_entry (bare_post @ [(pystr_of ''title'', JStr [])]) \<noteq> index_entry bare_post"
    by (simp add: index_entry_def dict_get_append [OF a] dict_get_absent [OF a] key_neq
        names_of_def iter_def and_then_def bare_post_def dict_get_def)
qed

text \<open>
  C6. The caller of \<open>fetch_and_save\<close> has two flags: \<open>save_json\<close> enables
  the JSON dump together with the index, \<open>save_txt\<close> the text files. For every
  combination of the two flags, a run that fetched at least one post and completed
  wrote a JSON dump exactly when \<open>save_json\<close> was set, an index exactly when \<open>save_json\<close>
  was set, and text files exactly when \<open>save_txt\<close> was set.
\<close>

theorem artifact_kinds_by_flags:
  assumes "fetch_all_posts get self limit = Some (sent, Inr posts)" and "posts \<noteq> []"
    and "fetch_and_save get repr now1 now2 self d save_json save_txt limit =
           Some (sent', effs, Inr ())"
  shows "list_ex (is_dump d) effs = save_json \<and> list_ex (is_index d) effs = save_json \<and>
         list_ex (is_txt d) effs = save_txt"
  using assms by (rule kinds_of_run)

theorem artifact_kinds_by_flags_witness:
  "\<exists>effs. fetch_and_save (ghost_api [sample_post]) sample_repr sample_time sample_time sample_self
      (pystr_of ''out'') False True None = Some ([params sample_self 1 100], effs, Inr ()) \<and>
    \<not> list_ex (is_dump (pystr_of ''out'')) effs \<and> \<not> list_ex (is_index (pystr_of ''out'')) effs \<and>
    list_ex (is_txt (pystr_of ''out'')) effs"
proof -
  obtain effs where r: "fetch_and_save (ghost_api [sample_post]) sample_repr sample_time sample_time
      sample_self (pystr_of ''out'') False True None = Some ([params sample_self 1 100], effs, Inr ())"
    using sample_run by blast
  from artifact_kinds_by_flags [OF fetch_sample _ r] r show ?thesis by simp
qed


theorem index_follows_json_counterexample:
  "(\<exists>effs. fetch_and_save (ghost_api [sample_post]) sample_repr sample_time sample_time sample_self
      (pystr_of ''out'') True True None = Some ([params sample_self 1 100], effs, Inr ()) \<and>
      list_ex (is_dump (pystr_of ''out'')) effs \<and> list_ex (is_index (pystr_of ''out'')) effs) \<and>
   (\<exists>effs. fetch_and_save (ghost_api [sample_post]) sample_repr sample_time sample_time sample_self
      (pystr_of ''out'') True False None = Some ([params sample_self 1 100], effs, Inr ()) \<and>
      list_ex (is_dump (pystr_of ''out'')) effs \<and> list_ex (is_index (pystr_of ''out'')) effs) \<and>
   (\<exists>effs. fetch_and_save (ghost_api [sample_post]) sample_repr sample_time sample_time sample_self
      (pystr_of ''out'') False True None = Some ([params sample_self 1 100], effs, Inr ()) \<and>
      \<not> list_ex (is_dump (pystr_of ''out'')) effs \<and> \<not> list_ex (is_index (pystr_of ''out'')) effs) \<and>
   (\<exists>effs. fetch_and_save (ghost_api [sample_post]) sample_repr sample_time sample_time sample_self
      (pystr_of ''out'') False False None = Some ([params sample_self 1 100], effs, Inr ()) \<and>
      \<not> list_ex (is_dump (pystr_of ''out'')) effs \<and> \<not> list_ex (is_index (pystr_of ''out'')) effs)"
proof -
  have "\<exists>effs. fetch_and_save (ghost_api [sample_post]) sample_repr sample_time sample_time
      sample_self (pystr_of ''out'') save_json save_txt None =
        Some ([params sample_self 1 100], effs, Inr ()) \<and>
      list_ex (is_dump (pystr_of ''out'')) effs = save_json \<and>
      list_ex (is_index (pystr_of ''out'')) effs = save_json" for save_json save_txt
  proof -
    obtain effs where r: "fetch_and_save (ghost_api [sample_post]) sample_repr sample_time
        sample_time sample_self (pystr_of ''out'') save_json save_txt None =
          Some ([params sample_self 1 100], effs, Inr ())"
      using sample_run by blast
    from kinds_of_run [OF fetch_sample _ r] r show ?thesis by simp
  qed
  from this [of True True] this [of True False] this [of False True] this [of False False]
  show ?thesis by simp
qed

text \<open>
  C8. Two invocations of \<open>save_as_json\<close> on the same output directory write
  to the same JSON file exactly when their clock readings agree up to the second: the
  file names differ when the readings differ in the year, month, day, hour, minute or
  second, and an invocation within the same second as another overwrites its file.
\<close>

theorem json_file_distinct_iff:
  assumes "valid_datetime a" and "valid_datetime b"
  shows "snd (save_as_json self a a' posts output_dir) = snd (save_as_json self b b' posts' output_dir)
         \<longleftrightarrow> same_second a b"
proof
  assume "snd (save_as_json self a a' posts output_dir) = snd (save_as_json self b b' posts' output_dir)"
  then have "strftime a = strftime b"
    by (simp add: save_as_json_def json_name_def Let_def)
  with assms show "same_second a b" by (rule strftime_inj)
next
  assume "same_second a b"
  then have "strftime a = strftime b" by (simp add: same_second_def strftime_def)
  then show "snd (save_as_json self a a' posts output_dir) = snd (save_as_json self b b' posts' output_dir)"
    by (simp add: save_as_json_def json_name_def Let_def)
qed

theorem json_file_distinct_iff_witness:
  "valid_datetime sample_time \<and> valid_datetime (sample_time\<lparr>second := 31\<rparr>) \<and>
   snd (save_as_json sample_self sample_time sample_time [bare_post] (pystr_of ''out'')) \<noteq>
   snd (save_as_json sample_self (sample_time\<lparr>second := 31\<rparr>) (sample_time\<lparr>second := 31\<rparr>)
          [bare_post] (pystr_of ''out''))"
proof -
  have a: "valid_datetime sample_time"
    by (simp add: valid_datetime_def sample_time_def)
  have b: "valid_datetime (sample_time\<lparr>second := 31\<rparr>)"
    by (simp add: valid_datetime_def sample_time_def)
  have "\<not> same_second sample_time (sample_time\<lparr>second := 31\<rparr>)"
    by (simp add: same_second_def sample_time_def)
  with json_file_distinct_iff [OF a b] a b show ?thesis by simp
qed

theorem json_file_overwritten_counterexample:
  "sample_time \<noteq> sample_time\<lparr>microsecond := 5\<rparr> \<and>
   snd (save_as_json sample_self sample_time sample_time [bare_post] (pystr_of ''out'')) =
   snd (save_as_json sample_self (sample_time\<lparr>microsecond := 5\<rparr>)
          (sample_time\<lparr>microsecond := 5\<rparr>) [sample_post] (pystr_of ''out''))"
  by (simp add: save_as_json_def json_name_def strftime_def sample_time_def Let_def)




text \<open>
  C7. \<open>strip_html_tags\<close> applied to
  \<^verbatim>\<open><p>Hello<script>bad()</script> World</p>\<close> returns \<open>Hello World\<close>: a string that
  contains \<open>Hello\<close> and \<open>World\<close>, and no \<open>bad()\<close>, no \<open><\<close> and no \<open>>\<close>.
\<close>

theorem strip_html_tags_example:
  "strip_html_tags (JStr (pystr_of ''<p>Hello<script>bad()</script> World</p>'')) =
     Inr (pystr_of ''Hello World'') \<and>
   contains (pystr_of ''Hello'') (pystr_of ''Hello World'') \<and>
   contains (pystr_of ''World'') (pystr_of ''Hello World'') \<and>
   \<not> contains (pystr_of ''bad()'') (pystr_of ''Hello World'') \<and>
   of_char CHR ''<'' \<notin> set (pystr_of ''Hello World'') \<and>
   of_char CHR ''>'' \<notin> set (pystr_of ''Hello World'')"
  by code_simp

end
